theory Spec2Isabelle
  imports Main "HOL-Library.Word" "HOL-Library.Multiset" "HOL-Library.AList"
begin

unbundle bit_operations_syntax

section \<open>The program (main.go), embedded\<close>

subsection \<open>Addresses: the parts of Go's package \<open>net\<close> that main.go calls\<close>

text \<open>
  \<open>net.IP\<close> and \<open>net.IPMask\<close> are byte slices; the nil slice is the empty list where a
  length is taken and \<open>None\<close> where the code tests for nil. The functions of this
  subsection belong to the Go standard library, not to the repository; they are written
  here as the library's source has them, because \<open>scanNetwork\<close> and \<open>incIP\<close> call them.
\<close>

type_synonym byte = "8 word"
type_synonym IP = "byte list"
type_synonym IPMask = "byte list"

record IPNet =
  IP :: IP
  Mask :: IPMask

definition v4InV6Prefix :: "byte list" where
  "v4InV6Prefix = [0, 0, 0, 0, 0, 0, 0, 0, 0, 0, 0xff, 0xff]"

text \<open>\<open>ip.To4()\<close>: a 4-byte address is itself, a 16-byte IPv4-mapped address is its last
  four bytes, anything else is nil.\<close>

definition To4 :: "IP \<Rightarrow> IP option" where
  "To4 ip =
     (if length ip = 4 then Some ip
      else if length ip = 16 \<and> take 12 ip = v4InV6Prefix then Some (drop 12 ip)
      else None)"

text \<open>\<open>net.CIDRMask(ones, bits)\<close>, its loop over the \<open>l = bits / 8\<close> bytes of the mask:
  the first argument counts the bytes still to write, the second is \<open>n\<close>.\<close>

fun CIDRMask_loop :: "nat \<Rightarrow> nat \<Rightarrow> IPMask" where
  "CIDRMask_loop 0 n = []"
| "CIDRMask_loop (Suc l) n =
     (if n \<ge> 8 then 0xff # CIDRMask_loop l (n - 8)
      else NOT (drop_bit n 0xff) # CIDRMask_loop l 0)"

definition CIDRMask :: "nat \<Rightarrow> nat \<Rightarrow> IPMask option" where
  "CIDRMask ones bits =
     (if bits \<noteq> 32 \<and> bits \<noteq> 128 then None
      else if ones > bits then None
      else Some (CIDRMask_loop (bits div 8) ones))"

text \<open>
  \<open>net.ParseCIDR\<close> on the text of an IPv4 block \<open>a.b.c.d/ones\<close>: the argument \<open>addr\<close>
  is the four octets the text denotes. The library answers
  \<open>&IPNet{IP: ip.Mask(m), Mask: m}\<close> with \<open>m = CIDRMask(ones, 32)\<close>, and an error when
  \<open>ones\<close> exceeds 32. Reading the decimal text itself is not modelled: \<open>scanNetwork\<close>
  below takes the outcome of \<open>net.ParseCIDR\<close> as its input.
\<close>

definition ParseCIDR4 :: "IP \<Rightarrow> nat \<Rightarrow> IPNet option" where
  "ParseCIDR4 addr ones =
     (if length addr \<noteq> 4 then None
      else case CIDRMask ones 32 of
             None \<Rightarrow> None
           | Some m \<Rightarrow> Some \<lparr>IP = map2 (AND) addr m, Mask = m\<rparr>)"

text \<open>\<open>networkNumberAndMask\<close> and \<open>(*IPNet).Contains\<close>.\<close>

definition networkNumberAndMask :: "IPNet \<Rightarrow> IP \<times> IPMask" where
  "networkNumberAndMask n =
     (case (case To4 (IP n) of
              Some ip4 \<Rightarrow> Some ip4
            | None \<Rightarrow> if length (IP n) \<noteq> 16 then None else Some (IP n)) of
        None \<Rightarrow> ([], [])
      | Some ip \<Rightarrow>
          if length (Mask n) = 4 then (if length ip \<noteq> 4 then ([], []) else (ip, Mask n))
          else if length (Mask n) = 16 then
            (if length ip = 4 then (ip, drop 12 (Mask n)) else (ip, Mask n))
          else ([], []))"

definition Contains :: "IPNet \<Rightarrow> IP \<Rightarrow> bool" where
  "Contains n ip0 =
     (case networkNumberAndMask n of
        (nn, m) \<Rightarrow>
          let ip = (case To4 ip0 of Some x \<Rightarrow> x | None \<Rightarrow> ip0);
              l = length ip
          in if l \<noteq> length nn then False
             else list_all (\<lambda>i. nn ! i AND m ! i = ip ! i AND m ! i) [0..<l])"

text \<open>The 32-bit number an address stands for (most significant octet first).\<close>

definition ip_val :: "IP \<Rightarrow> nat" where
  "ip_val ip = foldl (\<lambda>acc b. 256 * acc + unat b) 0 ip"

subsection \<open>\<open>incIP\<close>\<close>

text \<open>
  The loop \<open>for i := 3; i >= 0; i--\<close> of \<open>incIP\<close>; the counter of the model is
  \<open>i + 1\<close>, so that it ends at 0. The increment \<open>newIP[i]++\<close> only runs below 255.
\<close>

fun incIP_loop :: "nat \<Rightarrow> IP \<Rightarrow> IP" where
  "incIP_loop 0 newIP = newIP"
| "incIP_loop (Suc i) newIP =
     (if newIP ! i < 255 then newIP[i := newIP ! i + 1]
      else incIP_loop i (newIP[i := 0]))"

definition incIP :: "IP \<Rightarrow> IP option" where
  "incIP ip = (case To4 ip of None \<Rightarrow> None | Some ip4 \<Rightarrow> Some (incIP_loop 4 ip4))"

subsection \<open>\<open>scanNetwork\<close>: the enumeration loop\<close>

text \<open>
  The loop \<open>for ipnet.Contains(ip) { ipChan <- ip; ip = incIP(ip); if ip == nil { break } }\<close>.
  \<open>sent\<close> is the sequence of addresses sent to the channel so far; the result is the
  whole sequence once the loop is left, and \<open>None\<close> when the loop is never left.
\<close>

partial_function (option) scanNetwork_loop :: "IPNet \<Rightarrow> IP \<Rightarrow> IP list \<Rightarrow> IP list option" where
  "scanNetwork_loop ipnet ip sent =
     (if Contains ipnet ip then
        (case incIP ip of
           None \<Rightarrow> Some (sent @ [ip])
         | Some ip' \<Rightarrow> scanNetwork_loop ipnet ip' (sent @ [ip]))
      else Some sent)"

definition scanNetwork_enum :: "IPNet \<Rightarrow> IP list option" where
  "scanNetwork_enum ipnet = scanNetwork_loop ipnet (IP ipnet) []"

subsection \<open>Formatting and strings: the parts of \<open>fmt\<close>, \<open>strings\<close> and \<open>strconv\<close> used\<close>

text \<open>The decimal digits of a natural number, and \<open>%d\<close> of an \<open>int\<close>.\<close>

definition digit_char :: "nat \<Rightarrow> char" where
  "digit_char d = ''0123456789'' ! d"

fun digits :: "nat \<Rightarrow> string" where
  "digits n =
     (if n < 10 then [digit_char n]
      else digits (n div 10) @ [digit_char (n mod 10)])"

declare digits.simps [simp del]

definition itoa :: "int \<Rightarrow> string" where
  "itoa i = (if i < 0 then CHR ''-'' # digits (nat (- i)) else digits (nat i))"

text \<open>\<open>%v\<close> of an \<open>error\<close>: its message, and \<open><nil>\<close> for the nil error.\<close>

definition show_err :: "string option \<Rightarrow> string" where
  "show_err err = (case err of None \<Rightarrow> ''<nil>'' | Some msg \<Rightarrow> msg)"

text \<open>\<open>strings.Split(s, sep)\<close> for a separator of one character.\<close>

fun Split :: "string \<Rightarrow> char \<Rightarrow> string list" where
  "Split [] sep = [[]]"
| "Split (c # cs) sep =
     (if c = sep then [] # Split cs sep
      else case Split cs sep of
             [] \<Rightarrow> [[c]]
           | p # ps \<Rightarrow> (c # p) # ps)"

definition HasPrefix :: "string \<Rightarrow> string \<Rightarrow> bool" where
  "HasPrefix s pre = (length s \<ge> length pre \<and> take (length pre) s = pre)"

text \<open>
  \<open>strconv.Atoi\<close>, the value it returns (main.go drops the error): an optional sign and
  decimal digits; 0 on a syntax error, the nearest 64-bit value on a range error.
\<close>

definition is_digit :: "char \<Rightarrow> bool" where
  "is_digit c = (48 \<le> (of_char c :: nat) \<and> (of_char c :: nat) \<le> 57)"

definition digits_val :: "string \<Rightarrow> int" where
  "digits_val s = foldl (\<lambda>acc c. 10 * acc + (of_char c - 48)) 0 s"

definition Atoi :: "string \<Rightarrow> int" where
  "Atoi s =
     (let (neg, ds) = (case s of
                         c # cs \<Rightarrow> if c = CHR ''-'' then (True, cs)
                                   else if c = CHR ''+'' then (False, cs) else (False, s)
                       | [] \<Rightarrow> (False, s))
      in if ds = [] \<or> \<not> list_all is_digit ds then 0
         else let v = (if neg then - digits_val ds else digits_val ds)
              in if v > 9223372036854775807 then 9223372036854775807
                 else if v < - 9223372036854775808 then - 9223372036854775808
                 else v)"

subsection \<open>float64, as far as the percentage needs it\<close>

text \<open>
  Go's \<open>float64\<close> is IEEE 754 binary64 with round-to-nearest-even. The percentage is
  computed from non-negative operands only, and the quotient of two 64-bit integers and
  its product with 100 stay far inside the normal range, so a value is modelled as a pair
  \<open>(m, e)\<close> standing for \<open>m * 2^e\<close>, and every operation rounds the exact result to
  53 significant bits.
\<close>

type_synonym float64 = "nat \<times> int"

fun bits :: "nat \<Rightarrow> nat" where
  "bits n = (if n = 0 then 0 else Suc (bits (n div 2)))"

declare bits.simps [simp del]

text \<open>\<open>round_div a b\<close>: the integer nearest to \<open>a / b\<close>, a tie going to the even one.\<close>

definition round_div :: "nat \<Rightarrow> nat \<Rightarrow> nat" where
  "round_div a b =
     (let q = a div b; r = a mod b
      in if 2 * r < b then q
         else if 2 * r > b then q + 1
         else if even q then q else q + 1)"

text \<open>\<open>ilog2 n d\<close>: the integer \<open>e\<close> with \<open>2^e \<le> n / d < 2^(e+1)\<close>, for positive \<open>n\<close>, \<open>d\<close>.\<close>

definition ilog2 :: "nat \<Rightarrow> nat \<Rightarrow> int" where
  "ilog2 n d =
     (let k = int (bits n) - int (bits d)
      in if (if k \<ge> 0 then n \<ge> d * 2 ^ nat k else n * 2 ^ nat (- k) \<ge> d) then k else k - 1)"

text \<open>The exact quotient \<open>n / d\<close>, rounded to binary64.\<close>

definition round53 :: "nat \<Rightarrow> nat \<Rightarrow> float64" where
  "round53 n d =
     (if n = 0 then (0, 0)
      else let e = ilog2 n d; s = 52 - e
           in (if s \<ge> 0 then round_div (n * 2 ^ nat s) d else round_div n (d * 2 ^ nat (- s)), - s))"

definition float64_of_int :: "int \<Rightarrow> float64" where
  "float64_of_int i = round53 (nat i) 1"

definition float64_div :: "float64 \<Rightarrow> float64 \<Rightarrow> float64" where
  "float64_div x y =
     (case round53 (fst x) (fst y) of (m, e) \<Rightarrow> (m, e + snd x - snd y))"

definition float64_mul :: "float64 \<Rightarrow> float64 \<Rightarrow> float64" where
  "float64_mul x y =
     (case round53 (fst x * fst y) 1 of (m, e) \<Rightarrow> (m, e + snd x + snd y))"

text \<open>
  \<open>int(x)\<close>: the conversion truncates, and its result is a 64-bit integer. For a value
  that does not fit the language leaves the result to the implementation; the conversion
  instruction of amd64 answers the smallest 64-bit integer, which is what is written here.
\<close>

definition int_of_float64 :: "float64 \<Rightarrow> int" where
  "int_of_float64 x =
     (let v = (if snd x \<ge> 0 then int (fst x * 2 ^ nat (snd x))
               else int (fst x div 2 ^ nat (- snd x)))
      in if v < 9223372036854775808 then v else - 9223372036854775808)"

text \<open>\<open>int((float64(level) / float64(capacity)) * 100)\<close>.\<close>

definition percent :: "int \<Rightarrow> int \<Rightarrow> int" where
  "percent level capacity =
     int_of_float64
       (float64_mul (float64_div (float64_of_int level) (float64_of_int capacity))
          (float64_of_int 100))"

subsection \<open>\<open>pollPrinter\<close>\<close>

text \<open>
  A value of an SNMP variable (\<open>variable.Value\<close>, an \<open>interface{}\<close>): the code only asks
  whether it is a \<open>string\<close> or an \<open>int\<close>; every other dynamic type is \<open>OtherV\<close>. An
  \<open>int\<close> of Go is 64 bits wide here: \<open>IntV val\<close> stands for a value from \<open>-2^63\<close> to
  \<open>2^63 - 1\<close>.
\<close>

datatype snmp_value = StrV string | IntV int | OtherV

text \<open>\<open>variable.Type\<close>: the code only compares it with \<open>gosnmp.NoSuchObject\<close>.\<close>

datatype Asn1BER = Integer | OctetString | ObjectIdentifier | IPAddress | NoSuchObject | OtherType

record SnmpPDU =
  pdu_Name :: string
  pdu_Type :: Asn1BER
  pdu_Value :: snmp_value

text \<open>
  The variables gosnmp hands over. When it decodes a response the library stores an \<open>int\<close>
  for an INTEGER, a \<open>string\<close> (the dotted text) for an OBJECT IDENTIFIER and for an
  IpAddress, a \<open>[]byte\<close> for an OCTET STRING, nil for \<open>NoSuchObject\<close>, and unsigned
  integers or nil for the remaining types; so the type assertion \<open>.(string)\<close> of main.go
  succeeds on an OBJECT IDENTIFIER or an IpAddress only, and \<open>.(int)\<close> on an INTEGER only.
\<close>

definition gosnmp_decoded :: "SnmpPDU \<Rightarrow> bool" where
  "gosnmp_decoded variable =
     (case pdu_Type variable of
        Integer \<Rightarrow> (case pdu_Value variable of IntV val \<Rightarrow> True | _ \<Rightarrow> False)
      | ObjectIdentifier \<Rightarrow> (case pdu_Value variable of StrV str \<Rightarrow> True | _ \<Rightarrow> False)
      | IPAddress \<Rightarrow> (case pdu_Value variable of StrV str \<Rightarrow> True | _ \<Rightarrow> False)
      | _ \<Rightarrow> pdu_Value variable = OtherV)"

record Supply =
  Description :: string
  Level :: int
  MaxCapacity :: int

record Tray =
  Name :: string
  CurrentLevel :: int
  TrayMaxCapacity :: int

definition printerStatusMap :: "int \<Rightarrow> string option" where
  "printerStatusMap =
     [1 \<mapsto> ''other'', 2 \<mapsto> ''unknown'', 3 \<mapsto> ''idle'', 4 \<mapsto> ''printing'', 5 \<mapsto> ''warmup'']"

text \<open>
  What one device answers to \<open>pollPrinter\<close>: the error of \<open>params.Connect()\<close>, the
  outcome of \<open>params.Get(oids)\<close> (an error, or \<open>result.Variables\<close>), and for each of
  the two walks the variables handed to the callback and the error \<open>params.Walk\<close>
  returns at the end. Go ranges over a map in an order of the runtime's choosing:
  \<open>range_supplies\<close> and \<open>range_trays\<close> are that choice while this device is polled, a
  rearrangement of the entries.
\<close>

record Device =
  connect_err :: "string option"
  get_result :: "string + SnmpPDU list"
  walk_supplies :: "SnmpPDU list \<times> string option"
  walk_trays :: "SnmpPDU list \<times> string option"
  range_supplies :: "(int \<times> Supply) list \<Rightarrow> (int \<times> Supply) list"
  range_trays :: "(int \<times> Tray) list \<Rightarrow> (int \<times> Tray) list"

text \<open>The body of the loop over \<open>result.Variables\<close>: what one variable prints.\<close>

definition print_variable :: "SnmpPDU \<Rightarrow> string" where
  "print_variable variable =
     (if pdu_Name variable = ''.1.3.6.1.2.1.1.1.0'' then
        (case pdu_Value variable of
           StrV str \<Rightarrow> if str \<noteq> '''' then ''  System Description: '' @ str @ ''\<newline>'' else ''''
         | _ \<Rightarrow> '''')
      else if pdu_Name variable = ''.1.3.6.1.2.1.43.5.1.1.16.1'' then
        (case pdu_Value variable of
           StrV str \<Rightarrow> if str \<noteq> '''' then ''  Printer Name: '' @ str @ ''\<newline>'' else ''''
         | _ \<Rightarrow> '''')
      else if pdu_Name variable = ''.1.3.6.1.2.1.25.3.5.1.1.1'' then
        (case pdu_Value variable of
           IntV val \<Rightarrow>
             (case printerStatusMap val of
                Some status \<Rightarrow> ''  Printer Status: '' @ status @ ''\<newline>''
              | None \<Rightarrow> ''  Printer Status: '' @ itoa val @ '' (unknown)\<newline>'')
         | _ \<Rightarrow> '''')
      else if pdu_Name variable = ''.1.3.6.1.2.1.43.10.2.1.4.1'' then
        (case pdu_Value variable of
           IntV val \<Rightarrow> ''  Total Pages Printed: '' @ itoa val @ ''\<newline>''
         | _ \<Rightarrow> '''')
      else '''')"

text \<open>
  The callback of the walk over \<open>prtMarkerSuppliesTable\<close>. The Go map
  \<open>supplies\<close> is an association list with one entry per key.
\<close>

definition supplies_callback :: "(int \<times> Supply) list \<Rightarrow> SnmpPDU \<Rightarrow> (int \<times> Supply) list" where
  "supplies_callback supplies variable =
     (let parts = Split (pdu_Name variable) CHR ''.''
      in if length parts < 2 then supplies
         else
           let index = Atoi (last parts);
               supply = (case map_of supplies index of
                           Some s \<Rightarrow> s
                         | None \<Rightarrow> \<lparr>Description = '''', Level = 0, MaxCapacity = 0\<rparr>);
               supply' =
                 (if HasPrefix (pdu_Name variable) ''.1.3.6.1.2.1.43.11.1.1.6'' then
                    (case pdu_Value variable of
                       StrV str \<Rightarrow> supply\<lparr>Description := str\<rparr> | _ \<Rightarrow> supply)
                  else if HasPrefix (pdu_Name variable) ''.1.3.6.1.2.1.43.11.1.1.9'' then
                    (case pdu_Value variable of
                       IntV val \<Rightarrow> supply\<lparr>Level := val\<rparr> | _ \<Rightarrow> supply)
                  else if HasPrefix (pdu_Name variable) ''.1.3.6.1.2.1.43.11.1.1.8'' then
                    (case pdu_Value variable of
                       IntV val \<Rightarrow> supply\<lparr>MaxCapacity := val\<rparr> | _ \<Rightarrow> supply)
                  else supply)
           in AList.update index supply' supplies)"

definition trays_callback :: "(int \<times> Tray) list \<Rightarrow> SnmpPDU \<Rightarrow> (int \<times> Tray) list" where
  "trays_callback trays variable =
     (let parts = Split (pdu_Name variable) CHR ''.''
      in if length parts < 2 then trays
         else
           let index = Atoi (last parts);
               tray = (case map_of trays index of
                         Some t \<Rightarrow> t
                       | None \<Rightarrow> \<lparr>Name = '''', CurrentLevel = 0, TrayMaxCapacity = 0\<rparr>);
               tray' =
                 (if HasPrefix (pdu_Name variable) ''.1.3.6.1.2.1.43.8.2.1.2'' then
                    (case pdu_Value variable of
                       StrV str \<Rightarrow> tray\<lparr>Name := str\<rparr> | _ \<Rightarrow> tray)
                  else if HasPrefix (pdu_Name variable) ''.1.3.6.1.2.1.43.8.2.1.9'' then
                    (case pdu_Value variable of
                       IntV val \<Rightarrow> tray\<lparr>CurrentLevel := val\<rparr> | _ \<Rightarrow> tray)
                  else if HasPrefix (pdu_Name variable) ''.1.3.6.1.2.1.43.8.2.1.8'' then
                    (case pdu_Value variable of
                       IntV val \<Rightarrow> tray\<lparr>TrayMaxCapacity := val\<rparr> | _ \<Rightarrow> tray)
                  else tray)
           in AList.update index tray' trays)"

text \<open>One turn of \<open>for _, supply := range supplies\<close> and of \<open>for _, tray := range trays\<close>.\<close>

definition supply_line :: "Supply \<Rightarrow> string" where
  "supply_line supply =
     (let desc = (if Description supply = '''' then ''Unknown Supply'' else Description supply)
      in ''    - '' @ desc @ '': '' @ itoa (Level supply)
         @ (if MaxCapacity supply > 0 \<and> Level supply \<ge> 0 then
              '' ('' @ itoa (percent (Level supply) (MaxCapacity supply)) @ ''% of ''
              @ itoa (MaxCapacity supply) @ '')''
            else if Level supply = - 3 then '' (unknown)''
            else '''')
         @ ''\<newline>'')"

definition tray_line :: "Tray \<Rightarrow> string" where
  "tray_line tray =
     (let name = (if Name tray = '''' then ''Unknown Tray'' else Name tray)
      in ''    - '' @ name @ '': '' @ itoa (CurrentLevel tray)
         @ (if TrayMaxCapacity tray > 0 \<and> CurrentLevel tray \<ge> 0 then
              '' ('' @ itoa (percent (CurrentLevel tray) (TrayMaxCapacity tray)) @ ''% of ''
              @ itoa (TrayMaxCapacity tray) @ '')''
            else '''')
         @ ''\<newline>'')"

text \<open>The two sections of the report.\<close>

definition supplies_section :: "Device \<Rightarrow> string" where
  "supplies_section dev =
     (let supplies = foldl supplies_callback [] (fst (walk_supplies dev));
          err = snd (walk_supplies dev)
      in if err = None \<and> length supplies > 0 then
           ''  Supplies:\<newline>''
           @ concat (map (\<lambda>(index, supply). supply_line supply) (range_supplies dev supplies))
         else ''  Supplies: (No data available: '' @ show_err err @ '')\<newline>'')"

definition trays_section :: "Device \<Rightarrow> string" where
  "trays_section dev =
     (let trays = foldl trays_callback [] (fst (walk_trays dev));
          err = snd (walk_trays dev)
      in if err = None \<and> length trays > 0 then
           ''  Paper Trays:\<newline>''
           @ concat (map (\<lambda>(index, tray). tray_line tray) (range_trays dev trays))
         else ''  Paper Trays: (No data available: '' @ show_err err @ '')\<newline>'')"

text \<open>\<open>pollPrinter\<close>: everything it writes to standard output.\<close>

definition pollPrinter :: "string \<Rightarrow> Device \<Rightarrow> string" where
  "pollPrinter ip dev =
     (case connect_err dev of
        Some err \<Rightarrow>
          [CHR 0xE2, CHR 0x9D, CHR 0x8C] @ '' Failed to connect to '' @ ip @ '': '' @ err @ ''\<newline>''
      | None \<Rightarrow>
          (case get_result dev of
             Inl err \<Rightarrow>
               [CHR 0xE2, CHR 0x9D, CHR 0x8C] @ '' SNMP Get error for '' @ ip @ '': '' @ err @ ''\<newline>''
           | Inr variables \<Rightarrow>
               ''\<newline>'' @ [CHR 0xF0, CHR 0x9F, CHR 0x96, CHR 0xA8, CHR 0xEF, CHR 0xB8, CHR 0x8F]
               @ '' Printer Report for '' @ ip @ '':\<newline>''
               @ concat (map print_variable variables)
               @ supplies_section dev
               @ trays_section dev))"

subsection \<open>\<open>main\<close>, after \<open>scanNetwork\<close> has returned\<close>

text \<open>
  The summary line and the loop \<open>for _, printer := range printers { pollPrinter(printer, ...) }\<close>;
  \<open>devices\<close> says how the device at an address answers.
\<close>

definition report_printers :: "(string \<Rightarrow> Device) \<Rightarrow> string list \<Rightarrow> string" where
  "report_printers devices printers =
     (if length printers = 0 then
        [CHR 0xE2, CHR 0x9D, CHR 0x8C] @ '' No SNMP printers found!\<newline>''
      else
        [CHR 0xE2, CHR 0x9C, CHR 0x85] @ '' Found '' @ itoa (int (length printers))
        @ '' SNMP printers:\<newline>''
        @ foldl (\<lambda>out printer. out @ pollPrinter printer (devices printer)) '''' printers)"

subsection \<open>\<open>checkSNMP\<close>\<close>

text \<open>
  What the host at one address answers to \<open>checkSNMP\<close>: the error of \<open>params.Connect()\<close>,
  the outcome of the \<open>Get\<close> of \<open>hrPrinterStatus.1\<close> and of the \<open>Get\<close> of the three naming
  objects (an error, or the variables of the result).
\<close>

record Host =
  probe_connect_err :: "string option"
  probe_status :: "string + SnmpPDU list"
  probe_names :: "string + SnmpPDU list"

text \<open>The loop over \<open>nameResult.Variables\<close>: the first non-empty string, else \<open>""\<close>.\<close>

fun first_name :: "SnmpPDU list \<Rightarrow> string" where
  "first_name [] = ''''"
| "first_name (variable # rest) =
     (case pdu_Value variable of
        StrV str \<Rightarrow> if str \<noteq> '''' then str else first_name rest
      | _ \<Rightarrow> first_name rest)"

text \<open>\<open>checkSNMP\<close>: its result and what it prints.\<close>

definition checkSNMP :: "Host \<Rightarrow> string \<Rightarrow> bool \<times> string" where
  "checkSNMP host ip =
     (case probe_connect_err host of
        Some err \<Rightarrow> (False, '''')
      | None \<Rightarrow>
          (case probe_status host of
             Inl err \<Rightarrow> (False, '''')
           | Inr variables \<Rightarrow>
               if length variables = 0 \<or> pdu_Type (variables ! 0) = NoSuchObject
               then (False, '''')
               else
                 let name = (case probe_names host of
                               Inl err \<Rightarrow> ''''
                             | Inr name_variables \<Rightarrow> first_name name_variables)
                 in (True,
                     [CHR 0xF0, CHR 0x9F, CHR 0x8E, CHR 0xAF] @ '' Found printer: '' @ ip @ '' ''
                     @ [CHR 0xE2, CHR 0x86, CHR 0x92]
                     @ (if name \<noteq> '''' then '' '' @ name @ ''\<newline>''
                        else '' (unnamed)\<newline>''))))"

text \<open>
  \<open>ip.String()\<close> of the library: \<open><nil>\<close> for the empty slice, \<open>?\<close> and the hexadecimal
  digits of the bytes for a slice of neither 4 nor 16 bytes, the dotted decimal form when
  \<open>To4\<close> accepts the address, and else the text of an IPv6 address: its eight 16-bit
  fields in lower-case hexadecimal without leading zeros, separated by colons, the first
  longest run of at least two zero fields replaced by \<open>::\<close>.
\<close>

definition hexDigit :: "nat \<Rightarrow> char" where
  "hexDigit d = ''0123456789abcdef'' ! d"

definition hexString :: "byte list \<Rightarrow> string" where
  "hexString b = concat (map (\<lambda>tn. [hexDigit (unat tn div 16), hexDigit (unat tn mod 16)]) b)"

fun appendHex :: "nat \<Rightarrow> string" where
  "appendHex x =
     (if x < 16 then [hexDigit x]
      else appendHex (x div 16) @ [hexDigit (x mod 16)])"

declare appendHex.simps [simp del]

text \<open>The eight 16-bit fields of a 16-byte address.\<close>

definition v6u16 :: "IP \<Rightarrow> nat \<Rightarrow> nat" where
  "v6u16 ip i = 256 * unat (ip ! (2 * i)) + unat (ip ! (2 * i + 1))"

definition v6_fields :: "IP \<Rightarrow> nat list" where
  "v6_fields ip = map (v6u16 ip) [0, 1, 2, 3, 4, 5, 6, 7]"

text \<open>
  The search for the run of zero fields: for each \<open>i\<close> from 0 to 7 the run starting at
  \<open>i\<close> ends at \<open>j\<close>, and replaces the one found so far when it has at least two fields
  and is longer. Both bounds start at 255 (no run).
\<close>

definition zero_run_end :: "nat list \<Rightarrow> nat \<Rightarrow> nat" where
  "zero_run_end fs i = i + length (takeWhile (\<lambda>x. x = 0) (drop i fs))"

definition longest_zero_run :: "nat list \<Rightarrow> nat \<times> nat" where
  "longest_zero_run fs =
     foldl (\<lambda>(zeroStart, zeroEnd) i.
              let j = zero_run_end fs i
              in if j - i \<ge> 2 \<and> j - i > zeroEnd - zeroStart then (i, j)
                 else (zeroStart, zeroEnd))
       (255, 255) [0, 1, 2, 3, 4, 5, 6, 7]"

definition join_fields :: "nat list \<Rightarrow> string" where
  "join_fields fs =
     (case fs of
        [] \<Rightarrow> ''''
      | x # rest \<Rightarrow> appendHex x @ concat (map (\<lambda>y. '':'' @ appendHex y) rest))"

definition string6 :: "IP \<Rightarrow> string" where
  "string6 ip =
     (case longest_zero_run (v6_fields ip) of
        (zeroStart, zeroEnd) \<Rightarrow>
          if zeroStart < 8 then
            join_fields (take zeroStart (v6_fields ip)) @ ''::''
            @ join_fields (drop zeroEnd (v6_fields ip))
          else join_fields (v6_fields ip))"

definition IP_String :: "IP \<Rightarrow> string" where
  "IP_String ip =
     (if length ip = 0 then ''<nil>''
      else if length ip \<noteq> 4 \<and> length ip \<noteq> 16 then ''?'' @ hexString ip
      else case To4 ip of
             Some [a, b, c, d] \<Rightarrow>
               digits (unat a) @ ''.'' @ digits (unat b) @ ''.'' @ digits (unat c) @ ''.''
               @ digits (unat d)
           | _ \<Rightarrow> string6 ip)"

subsection \<open>\<open>scanNetwork\<close>: the goroutines\<close>

text \<open>
  The main goroutine inside \<open>scanNetwork\<close> stands at the head of the enumeration loop with
  its variable \<open>ip\<close>, before \<open>close(ipChan)\<close>, at \<open>wg.Wait()\<close>, or has returned. A worker
  stands at the receive of \<open>for ip := range ipChan\<close>, before the call of \<open>checkSNMP\<close> with
  the address it received, before the append to \<open>printers\<close> under the mutex, or has left
  its loop (\<open>wg.Done()\<close>).
\<close>

datatype producer = Loop IP | Close | Wait | Returned

datatype worker = Recv | Check IP | Append IP | Done

text \<open>
  The shared state: the buffer of \<open>ipChan\<close> (oldest first) and whether it is closed, the
  slice \<open>printers\<close>, and standard output. \<open>hist_sent\<close> and \<open>hist_probed\<close> are not
  variables of the program: they record every address sent to the channel and every
  argument \<open>checkSNMP\<close> was called with, in order.
\<close>

record scan_state =
  main_at :: producer
  workers_at :: "worker list"
  ipChan :: "IP list"
  closed :: bool
  printers :: "string list"
  stdout :: string
  hist_sent :: "IP list"
  hist_probed :: "string list"

datatype actor = Main | Worker nat

text \<open>
  The state after \<open>ipChan := make(chan net.IP, workers)\<close> and the \<open>workers\<close> statements
  \<open>go func() {...}()\<close>, with \<open>ip := ipnet.IP\<close>.
\<close>

definition scan_init :: "IPNet \<Rightarrow> nat \<Rightarrow> scan_state" where
  "scan_init ipnet n =
     \<lparr>main_at = Loop (IP ipnet), workers_at = replicate n Recv, ipChan = [], closed = False,
      printers = [], stdout = '''', hist_sent = [], hist_probed = []\<rparr>"

text \<open>
  One step of the main goroutine; \<open>None\<close> when it cannot move: the send blocks while the
  buffer holds \<open>cap\<close> addresses, \<open>wg.Wait()\<close> blocks until every worker has left its loop.
\<close>

definition main_step :: "IPNet \<Rightarrow> nat \<Rightarrow> scan_state \<Rightarrow> scan_state option" where
  "main_step ipnet cap s =
     (case main_at s of
        Loop ip \<Rightarrow>
          if Contains ipnet ip then
            (if length (ipChan s) < cap then
               Some (s\<lparr>ipChan := ipChan s @ [ip], hist_sent := hist_sent s @ [ip],
                       main_at := (case incIP ip of None \<Rightarrow> Close | Some ip' \<Rightarrow> Loop ip')\<rparr>)
             else None)
          else Some (s\<lparr>main_at := Close\<rparr>)
      | Close \<Rightarrow> Some (s\<lparr>closed := True, main_at := Wait\<rparr>)
      | Wait \<Rightarrow>
          if list_all (\<lambda>w. w = Done) (workers_at s) then Some (s\<lparr>main_at := Returned\<rparr>)
          else None
      | Returned \<Rightarrow> None)"

text \<open>
  One step of worker \<open>i\<close>; \<open>None\<close> when it cannot move: the receive blocks while the
  buffer is empty and the channel open. \<open>check\<close> is \<open>checkSNMP\<close> on the hosts of the
  network.
\<close>

definition worker_step :: "(string \<Rightarrow> bool \<times> string) \<Rightarrow> nat \<Rightarrow> scan_state \<Rightarrow> scan_state option" where
  "worker_step check i s =
     (if i \<ge> length (workers_at s) then None
      else case workers_at s ! i of
        Recv \<Rightarrow>
          (case ipChan s of
             ip # rest \<Rightarrow> Some (s\<lparr>ipChan := rest, workers_at := (workers_at s)[i := Check ip]\<rparr>)
           | [] \<Rightarrow>
               if closed s then Some (s\<lparr>workers_at := (workers_at s)[i := Done]\<rparr>) else None)
      | Check ip \<Rightarrow>
          (case check (IP_String ip) of
             (found, text) \<Rightarrow>
               Some (s\<lparr>hist_probed := hist_probed s @ [IP_String ip],
                       stdout := stdout s @ text,
                       workers_at := (workers_at s)[i := (if found then Append ip else Recv)]\<rparr>))
      | Append ip \<Rightarrow>
          Some (s\<lparr>printers := printers s @ [IP_String ip],
                  workers_at := (workers_at s)[i := Recv]\<rparr>)
      | Done \<Rightarrow> None)"

definition step ::
  "IPNet \<Rightarrow> nat \<Rightarrow> (string \<Rightarrow> bool \<times> string) \<Rightarrow> actor \<Rightarrow> scan_state \<Rightarrow> scan_state option" where
  "step ipnet cap check a s =
     (case a of Main \<Rightarrow> main_step ipnet cap s | Worker i \<Rightarrow> worker_step check i s)"

text \<open>
  An execution follows a schedule, the goroutine that moves at each step; a schedule that
  names a goroutine which cannot move is not one of the program (\<open>None\<close>).
\<close>

fun run ::
  "IPNet \<Rightarrow> nat \<Rightarrow> (string \<Rightarrow> bool \<times> string) \<Rightarrow> actor list \<Rightarrow> scan_state \<Rightarrow> scan_state option" where
  "run ipnet cap check [] s = Some s"
| "run ipnet cap check (a # sched) s =
     (case step ipnet cap check a s of
        None \<Rightarrow> None
      | Some s' \<Rightarrow> run ipnet cap check sched s')"

text \<open>
  \<open>scanNetwork\<close> under a schedule, given the outcome of \<open>net.ParseCIDR(cidr)\<close>:
  \<open>log.Fatalf\<close> on an error, the panic of \<open>make\<close> on a negative channel size, else the
  state in which it returns; \<open>None\<close> when the schedule does not take it to its return.
\<close>

datatype scan_outcome = Fatalf string | Panic | Returns scan_state

definition scanNetwork ::
  "(string + IPNet) \<Rightarrow> (string \<Rightarrow> bool \<times> string) \<Rightarrow> int \<Rightarrow> actor list \<Rightarrow> scan_outcome option" where
  "scanNetwork parsed check workers sched =
     (case parsed of
        Inl err \<Rightarrow> Some (Fatalf err)
      | Inr ipnet \<Rightarrow>
          if workers < 0 then Some Panic
          else
            (case run ipnet (nat workers) check sched (scan_init ipnet (nat workers)) of
               None \<Rightarrow> None
             | Some s \<Rightarrow> if main_at s = Returned then Some (Returns s) else None))"

subsection \<open>\<open>main\<close>\<close>

text \<open>
  The world outside the process: what \<open>net.ParseCIDR\<close> makes of the text of the flag, and
  what the host at an address answers, under a community string, to \<open>checkSNMP\<close> and to
  \<open>pollPrinter\<close>.
\<close>

record World =
  ParseCIDR :: "string \<Rightarrow> string + IPNet"
  probe_hosts :: "string \<Rightarrow> string \<Rightarrow> Host"
  poll_devices :: "string \<Rightarrow> string \<Rightarrow> Device"

text \<open>
  How the process ends: its exit status (1 from \<open>log.Fatalf\<close>, 2 from a panic, 0 when
  \<open>main\<close> returns), its standard output, and the addresses probed.
\<close>

record outcome =
  exit_status :: nat
  out_text :: string
  probes :: "string list"

definition scan_banner :: "string \<Rightarrow> int \<Rightarrow> string" where
  "scan_banner cidr workers =
     [CHR 0xF0, CHR 0x9F, CHR 0x94, CHR 0x8E] @ '' Scanning network '' @ cidr @ '' with ''
     @ itoa workers @ '' workers for SNMP-enabled printers...\<newline>''"

definition main_run :: "World \<Rightarrow> string \<Rightarrow> string \<Rightarrow> int \<Rightarrow> actor list \<Rightarrow> outcome option" where
  "main_run world cidr community workers sched =
     (case scanNetwork (ParseCIDR world cidr)
             (\<lambda>ip. checkSNMP (probe_hosts world ip community) ip) workers sched of
        None \<Rightarrow> None
      | Some (Fatalf err) \<Rightarrow>
          Some \<lparr>exit_status = 1, out_text = scan_banner cidr workers, probes = []\<rparr>
      | Some Panic \<Rightarrow>
          Some \<lparr>exit_status = 2, out_text = scan_banner cidr workers, probes = []\<rparr>
      | Some (Returns s) \<Rightarrow>
          Some \<lparr>exit_status = 0,
                out_text = scan_banner cidr workers @ stdout s
                  @ report_printers (\<lambda>ip. poll_devices world ip community) (printers s),
                probes = hist_probed s\<rparr>)"

subsection \<open>Notions for the statements about the goroutines\<close>

text \<open>The address a worker has received and not yet probed, or probed and not yet appended.\<close>

fun held :: "worker \<Rightarrow> IP list" where
  "held (Check ip) = [ip]"
| "held w = []"

fun to_append :: "worker \<Rightarrow> IP list" where
  "to_append (Append ip) = [ip]"
| "to_append w = []"

text \<open>
  What holds of every state an execution of \<open>scanNetwork\<close> reaches: every address sent has
  been probed or is in the buffer or in the hands of a worker; the addresses in
  \<open>printers\<close>, with those about to be appended, are the probed ones that \<open>checkSNMP\<close>
  accepted; the main goroutine has sent what the enumeration loop has sent at the same
  point; a worker leaves its loop only when the channel is closed and empty; and
  \<open>scanNetwork\<close> returns only when every worker has left.
\<close>

definition scan_inv ::
  "IPNet \<Rightarrow> nat \<Rightarrow> (string \<Rightarrow> bool \<times> string) \<Rightarrow> scan_state \<Rightarrow> bool" where
  "scan_inv ipnet n check s =
     (length (workers_at s) = n
      \<and> image_mset IP_String (mset (hist_sent s))
          = mset (hist_probed s)
            + image_mset IP_String
                (mset (ipChan s) + mset (concat (map held (workers_at s))))
      \<and> mset (printers s)
          + image_mset IP_String (mset (concat (map to_append (workers_at s))))
          = filter_mset (\<lambda>a. fst (check a)) (mset (hist_probed s))
      \<and> (case main_at s of
            Loop ip \<Rightarrow>
              scanNetwork_loop ipnet ip (hist_sent s) = scanNetwork_enum ipnet \<and> \<not> closed s
          | Close \<Rightarrow> scanNetwork_enum ipnet = Some (hist_sent s) \<and> \<not> closed s
          | Wait \<Rightarrow> scanNetwork_enum ipnet = Some (hist_sent s) \<and> closed s
          | Returned \<Rightarrow>
              scanNetwork_enum ipnet = Some (hist_sent s) \<and> closed s
              \<and> list_all (\<lambda>w. w = Done) (workers_at s))
      \<and> (if Done \<in> set (workers_at s) then closed s \<and> ipChan s = [] else True))"

text \<open>A bound on the steps still to come, when the enumeration sends the addresses \<open>E\<close>.\<close>

fun worker_weight :: "worker \<Rightarrow> nat" where
  "worker_weight Recv = 1"
| "worker_weight (Check ip) = 3"
| "worker_weight (Append ip) = 2"
| "worker_weight Done = 0"

fun main_weight :: "producer \<Rightarrow> nat" where
  "main_weight (Loop ip) = 3"
| "main_weight Close = 2"
| "main_weight Wait = 1"
| "main_weight Returned = 0"

definition steps_left :: "IP list \<Rightarrow> scan_state \<Rightarrow> nat" where
  "steps_left E s =
     4 * (length E - length (hist_sent s)) + main_weight (main_at s)
     + 3 * length (ipChan s) + sum_list (map worker_weight (workers_at s))"

subsection \<open>Concrete inputs for the worked examples\<close>

text \<open>
  A device whose two walks succeed with a supply that has a level and a capacity but no
  description, and a tray that has a level but no name; a device whose supplies walk
  fails with a timeout while its trays walk succeeds; and a device whose supplies walk
  succeeds while its trays walk ends without an entry.
\<close>

definition no_trays_device :: Device where
  "no_trays_device =
     \<lparr>connect_err = None, get_result = Inr [],
      walk_supplies =
        ([\<lparr>pdu_Name = ''.1.3.6.1.2.1.43.11.1.1.9.1.1'', pdu_Type = Integer, pdu_Value = IntV 80\<rparr>,
          \<lparr>pdu_Name = ''.1.3.6.1.2.1.43.11.1.1.8.1.1'', pdu_Type = Integer, pdu_Value = IntV 100\<rparr>], None),
      walk_trays = ([], None),
      range_supplies = id, range_trays = id\<rparr>"

definition example_device :: Device where
  "example_device =
     \<lparr>connect_err = None, get_result = Inr [],
      walk_supplies =
        ([\<lparr>pdu_Name = ''.1.3.6.1.2.1.43.11.1.1.9.1.1'', pdu_Type = Integer, pdu_Value = IntV 80\<rparr>,
          \<lparr>pdu_Name = ''.1.3.6.1.2.1.43.11.1.1.8.1.1'', pdu_Type = Integer, pdu_Value = IntV 100\<rparr>], None),
      walk_trays =
        ([\<lparr>pdu_Name = ''.1.3.6.1.2.1.43.8.2.1.9.1.1'', pdu_Type = Integer, pdu_Value = IntV 150\<rparr>], None),
      range_supplies = id, range_trays = id\<rparr>"

definition degraded_device :: Device where
  "degraded_device =
     \<lparr>connect_err = None,
      get_result = Inr [\<lparr>pdu_Name = ''.1.3.6.1.2.1.25.3.5.1.1.1'', pdu_Type = Integer, pdu_Value = IntV 3\<rparr>],
      walk_supplies =
        ([\<lparr>pdu_Name = ''.1.3.6.1.2.1.43.11.1.1.9.1.1'', pdu_Type = Integer, pdu_Value = IntV 80\<rparr>],
         Some ''request timeout''),
      walk_trays =
        ([\<lparr>pdu_Name = ''.1.3.6.1.2.1.43.8.2.1.9.1.1'', pdu_Type = Integer, pdu_Value = IntV 150\<rparr>], None),
      range_supplies = id, range_trays = id\<rparr>"

definition example_devices :: "string \<Rightarrow> Device" where
  "example_devices q =
     (if q = ''10.0.0.7'' then degraded_device
      else if q = ''10.0.0.9'' then no_trays_device
      else example_device)"

text \<open>
  A world in which \<open>net.ParseCIDR\<close> accepts the text \<open>10.0.0.7/32\<close> only, every host
  answers the probe as a printer without a name, and every connection of \<open>pollPrinter\<close>
  fails; and a schedule of \<open>scanNetwork\<close> for one worker on that block.
\<close>

definition example_world :: World where
  "example_world =
     \<lparr>ParseCIDR =
        (\<lambda>cidr. if cidr = ''10.0.0.7/32''
                 then Inr \<lparr>IP = [10, 0, 0, 7], Mask = [255, 255, 255, 255]\<rparr>
                 else Inl (''invalid CIDR address: '' @ cidr)),
      probe_hosts =
        (\<lambda>ip community.
           \<lparr>probe_connect_err = None,
            probe_status =
              Inr [\<lparr>pdu_Name = ''.1.3.6.1.2.1.25.3.5.1.1.1'', pdu_Type = Integer,
                    pdu_Value = IntV 3\<rparr>],
            probe_names = Inl ''request timeout''\<rparr>),
      poll_devices =
        (\<lambda>ip community. example_device\<lparr>connect_err := Some ''i/o timeout''\<rparr>)\<rparr>"

definition example_schedule :: "actor list" where
  "example_schedule = [Main, Main, Main, Worker 0, Worker 0, Worker 0, Worker 0, Main]"

section \<open>Properties\<close>

subsection \<open>Octets and the successor\<close>

lemma len4: "length ip = 4 \<Longrightarrow> \<exists>a b c d. ip = [a, b, c, d]"
  by (simp add: length_Suc_conv numeral_eq_Suc) blast

lemma unat_byte_less: "unat (x :: byte) < 256"
  using unsigned_less[of x, where ?'a = nat] by simp

lemma byte_not_less_255: "\<not> (x :: byte) < 255 \<Longrightarrow> x = 255"
  using unsigned_less[of x, where ?'a = nat]
  by (simp add: word_less_nat_alt word_eq_iff_unsigned[where ?'a = nat])

lemma byte_less_255_suc: "(x :: byte) < 255 \<Longrightarrow> unat (x + 1) = unat x + 1"
  by (simp add: unat_word_ariths word_less_nat_alt)

lemma byte_less_255_nat: "(x :: byte) < 255 \<Longrightarrow> unat x < 255"
  by (simp add: word_less_nat_alt)

lemma incIP_loop_4:
  "incIP_loop 4 [a, b, c, d] =
   (if d < 255 then [a, b, c, d + 1]
    else if c < 255 then [a, b, c + 1, 0]
    else if b < 255 then [a, b + 1, 0, 0]
    else if a < 255 then [a + 1, 0, 0, 0]
    else [0, 0, 0, 0])"
  by (simp add: eval_nat_numeral)

lemma incIP_loop_len: "length (incIP_loop n ip) = length ip"
  by (induction n arbitrary: ip) auto

lemma ip_val4:
  "ip_val [a, b, c, d] = 16777216 * unat a + 65536 * unat b + 256 * unat c + unat d"
  by (simp add: ip_val_def)

lemma ip_val_less: "length ip = 4 \<Longrightarrow> ip_val ip < 2 ^ 32"
proof -
  assume "length ip = 4"
  then obtain a b c d where ip: "ip = [a, b, c, d]" using len4 by blast
  show ?thesis
    using unat_byte_less[of a] unat_byte_less[of b] unat_byte_less[of c] unat_byte_less[of d]
    by (simp add: ip ip_val4)
qed

lemma incIP_loop_val:
  "ip_val (incIP_loop 4 [a, b, c, d]) = (ip_val [a, b, c, d] + 1) mod 2 ^ 32"
proof -
  note bnd = unat_byte_less[of a] unat_byte_less[of b] unat_byte_less[of c] unat_byte_less[of d]
  consider (d) "d < 255" | (c) "d = 255" "c < 255" | (b) "d = 255" "c = 255" "b < 255"
    | (a) "d = 255" "c = 255" "b = 255" "a < 255" | (w) "d = 255" "c = 255" "b = 255" "a = 255"
    using byte_not_less_255 by blast
  then show ?thesis
  proof cases
    case d
    have "ip_val [a, b, c, d] + 1 < 2 ^ 32"
      using bnd byte_less_255_nat[OF d] by (simp add: ip_val4)
    then show ?thesis using d by (simp add: incIP_loop_4 ip_val4 byte_less_255_suc)
  next
    case c
    have "ip_val [a, b, c, d] + 1 < 2 ^ 32"
      using bnd byte_less_255_nat[OF c(2)] by (simp add: ip_val4)
    then show ?thesis using c by (simp add: incIP_loop_4 ip_val4 byte_less_255_suc)
  next
    case b
    have "ip_val [a, b, c, d] + 1 < 2 ^ 32"
      using bnd byte_less_255_nat[OF b(3)] by (simp add: ip_val4)
    then show ?thesis using b by (simp add: incIP_loop_4 ip_val4 byte_less_255_suc)
  next
    case a
    have "ip_val [a, b, c, d] + 1 < 2 ^ 32"
      using bnd byte_less_255_nat[OF a(4)] by (simp add: ip_val4)
    then show ?thesis using a by (simp add: incIP_loop_4 ip_val4 byte_less_255_suc)
  next
    case w
    then show ?thesis by (simp add: incIP_loop_4 ip_val4)
  qed
qed

lemma incIP_4:
  assumes "length ip = 4"
  shows "incIP ip = Some (incIP_loop 4 ip)"
    and "length (incIP_loop 4 ip) = 4"
    and "ip_val (incIP_loop 4 ip) = (ip_val ip + 1) mod 2 ^ 32"
proof -
  obtain a b c d where ip: "ip = [a, b, c, d]" using assms len4 by blast
  show "incIP ip = Some (incIP_loop 4 ip)" using assms by (simp add: incIP_def To4_def)
  show "length (incIP_loop 4 ip) = 4" using assms by (simp add: incIP_loop_len)
  show "ip_val (incIP_loop 4 ip) = (ip_val ip + 1) mod 2 ^ 32"
    unfolding ip by (rule incIP_loop_val)
qed

text \<open>
  C9. On every 4-octet address \<open>incIP\<close> answers a 4-octet address (never nil) whose
  32-bit value is the input's plus one modulo \<open>2^32\<close>; so the branch
  \<open>if ip == nil { break }\<close> of the enumeration loop is dead for such an address: one turn
  of the loop either leaves it because the block does not contain the address, or goes on
  with the successor.
\<close>

theorem incIP_v4_successor:
  assumes "length ip = 4"
  shows "\<exists>ip'. incIP ip = Some ip' \<and> length ip' = 4
           \<and> ip_val ip' = (ip_val ip + 1) mod 2 ^ 32
           \<and> scanNetwork_loop ipnet ip sent =
               (if Contains ipnet ip then scanNetwork_loop ipnet ip' (sent @ [ip])
                else Some sent)"
proof -
  have "scanNetwork_loop ipnet ip sent =
          (if Contains ipnet ip then scanNetwork_loop ipnet (incIP_loop 4 ip) (sent @ [ip])
           else Some sent)"
    by (subst scanNetwork_loop.simps) (simp add: incIP_4(1)[OF assms])
  then show ?thesis
    using incIP_4[OF assms] by blast
qed

theorem incIP_v4_successor_witness:
  "length [255, 255, 255, 255 :: byte] = 4
   \<and> incIP [255, 255, 255, 255] = Some [0, 0, 0, 0]
   \<and> ip_val [0, 0, 0, 0] = (ip_val [255, 255, 255, 255] + 1) mod 2 ^ 32"
proof -
  have h: "length [255, 255, 255, 255 :: byte] = 4" by simp
  obtain ip' where s: "incIP [255, 255, 255, 255] = Some ip'"
    and v: "ip_val ip' = (ip_val [255, 255, 255, 255] + 1) mod 2 ^ 32"
    using incIP_v4_successor[OF h] by blast
  have e: "incIP [255, 255, 255, 255] = Some [0, 0, 0, 0]"
    by (simp add: incIP_def To4_def incIP_loop_4)
  with s have "ip' = [0, 0, 0, 0]" by simp
  with v e h show ?thesis by simp
qed

subsection \<open>The lines of the report\<close>

lemmas eval_fmt = itoa_def digits.simps digit_char_def
lemmas eval_float = percent_def int_of_float64_def float64_mul_def float64_div_def
  float64_of_int_def round53_def ilog2_def bits.simps round_div_def Let_def
lemmas eval_oid = HasPrefix_def Atoi_def is_digit_def digits_val_def

lemma supply_line_unknown:
  "Description s = '''' \<Longrightarrow>
   \<exists>rest. supply_line s = ''    - Unknown Supply: '' @ itoa (Level s) @ rest @ ''\<newline>''"
  by (simp add: supply_line_def)

lemma tray_line_unknown:
  "Name t = '''' \<Longrightarrow>
   \<exists>rest. tray_line t = ''    - Unknown Tray: '' @ itoa (CurrentLevel t) @ rest @ ''\<newline>''"
  by (simp add: tray_line_def)

lemma concat_map_split:
  "x \<in> set xs \<Longrightarrow> \<exists>pre post. concat (map f xs) = pre @ f x @ post"
proof -
  assume "x \<in> set xs"
  then obtain ys zs where "xs = ys @ x # zs" by (auto simp: in_set_conv_decomp)
  then have "concat (map f xs) = concat (map f ys) @ f x @ concat (map f zs)" by simp
  then show ?thesis by blast
qed

lemma supplies_section_line:
  assumes "snd (walk_supplies dev) = None"
    and "mset (range_supplies dev (foldl supplies_callback [] (fst (walk_supplies dev))))
         = mset (foldl supplies_callback [] (fst (walk_supplies dev)))"
    and "(i, s) \<in> set (foldl supplies_callback [] (fst (walk_supplies dev)))"
  shows "\<exists>pre post. supplies_section dev = pre @ supply_line s @ post"
proof -
  let ?es = "foldl supplies_callback [] (fst (walk_supplies dev))"
  have ne: "?es \<noteq> []" using assms(3) by auto
  have "(i, s) \<in> set (range_supplies dev ?es)"
    using assms(2,3) by (metis set_mset_mset)
  from concat_map_split[OF this, of "\<lambda>(index, supply). supply_line supply"]
  obtain pre post where
    "concat (map (\<lambda>(index, supply). supply_line supply) (range_supplies dev ?es))
       = pre @ supply_line s @ post" by auto
  then have "supplies_section dev = (''  Supplies:\<newline>'' @ pre) @ supply_line s @ post"
    using ne assms(1) by (simp add: supplies_section_def Let_def)
  then show ?thesis by blast
qed

lemma trays_section_line:
  assumes "snd (walk_trays dev) = None"
    and "mset (range_trays dev (foldl trays_callback [] (fst (walk_trays dev))))
         = mset (foldl trays_callback [] (fst (walk_trays dev)))"
    and "(i, t) \<in> set (foldl trays_callback [] (fst (walk_trays dev)))"
  shows "\<exists>pre post. trays_section dev = pre @ tray_line t @ post"
proof -
  let ?es = "foldl trays_callback [] (fst (walk_trays dev))"
  have ne: "?es \<noteq> []" using assms(3) by auto
  have "(i, t) \<in> set (range_trays dev ?es)"
    using assms(2,3) by (metis set_mset_mset)
  from concat_map_split[OF this, of "\<lambda>(index, tray). tray_line tray"]
  obtain pre post where
    "concat (map (\<lambda>(index, tray). tray_line tray) (range_trays dev ?es))
       = pre @ tray_line t @ post" by auto
  then have "trays_section dev = (''  Paper Trays:\<newline>'' @ pre) @ tray_line t @ post"
    using ne assms(1) by (simp add: trays_section_def Let_def)
  then show ?thesis by blast
qed

lemma example_supplies:
  "foldl supplies_callback [] (fst (walk_supplies example_device))
   = [(1, \<lparr>Description = '''', Level = 80, MaxCapacity = 100\<rparr>)]"
  by (simp add: example_device_def supplies_callback_def eval_oid)

lemma example_trays:
  "foldl trays_callback [] (fst (walk_trays example_device))
   = [(1, \<lparr>Name = '''', CurrentLevel = 150, TrayMaxCapacity = 0\<rparr>)]"
  by (simp add: example_device_def trays_callback_def eval_oid)

lemma no_trays_supplies:
  "foldl supplies_callback [] (fst (walk_supplies no_trays_device))
   = [(1, \<lparr>Description = '''', Level = 80, MaxCapacity = 100\<rparr>)]"
  by (simp add: no_trays_device_def supplies_callback_def eval_oid)

lemma degraded_trays:
  "foldl trays_callback [] (fst (walk_trays degraded_device))
   = [(1, \<lparr>Name = '''', CurrentLevel = 150, TrayMaxCapacity = 0\<rparr>)]"
  by (simp add: degraded_device_def trays_callback_def eval_oid)

lemma pollPrinter_sections:
  "connect_err dev = None \<Longrightarrow> get_result dev = Inr variables \<Longrightarrow>
   pollPrinter ip dev =
     (''\<newline>'' @ [CHR 0xF0, CHR 0x9F, CHR 0x96, CHR 0xA8, CHR 0xEF, CHR 0xB8, CHR 0x8F]
      @ '' Printer Report for '' @ ip @ '':\<newline>''
      @ concat (map print_variable variables))
     @ supplies_section dev @ trays_section dev"
  by (simp add: pollPrinter_def)

text \<open>
  C10. The Supplies section of a device whose supplies walk returned no error holds the
  line of every supply of the table, whatever order the map is ranged over and whatever
  the trays walk did; the line of a supply without description starts
  \<open>- Unknown Supply: <level>\<close>. Likewise the Paper Trays section of a device whose trays
  walk returned no error holds the line of every tray, whatever the supplies walk did, and
  the line of a tray without name starts \<open>- Unknown Tray: <level>\<close>. When the device
  answered the connection and the batch fetch, these lines stand in what \<open>pollPrinter\<close>
  prints. An absent description or name never removes the line.
\<close>

theorem unknown_placeholders:
  "(snd (walk_supplies dev) = None
      \<and> mset (range_supplies dev (foldl supplies_callback [] (fst (walk_supplies dev))))
          = mset (foldl supplies_callback [] (fst (walk_supplies dev)))
      \<and> (i, s) \<in> set (foldl supplies_callback [] (fst (walk_supplies dev)))
      \<and> Description s = '''' \<longrightarrow>
      (\<exists>pre rest post. supplies_section dev =
          pre @ ''    - Unknown Supply: '' @ itoa (Level s) @ rest @ ''\<newline>'' @ post)
      \<and> (connect_err dev = None \<and> get_result dev = Inr variables \<longrightarrow>
           (\<exists>pre rest post. pollPrinter ip dev =
              pre @ ''    - Unknown Supply: '' @ itoa (Level s) @ rest @ ''\<newline>'' @ post)))
   \<and> (snd (walk_trays dev) = None
      \<and> mset (range_trays dev (foldl trays_callback [] (fst (walk_trays dev))))
          = mset (foldl trays_callback [] (fst (walk_trays dev)))
      \<and> (j, t) \<in> set (foldl trays_callback [] (fst (walk_trays dev)))
      \<and> Name t = '''' \<longrightarrow>
      (\<exists>pre rest post. trays_section dev =
          pre @ ''    - Unknown Tray: '' @ itoa (CurrentLevel t) @ rest @ ''\<newline>'' @ post)
      \<and> (connect_err dev = None \<and> get_result dev = Inr variables \<longrightarrow>
           (\<exists>pre rest post. pollPrinter ip dev =
              pre @ ''    - Unknown Tray: '' @ itoa (CurrentLevel t) @ rest @ ''\<newline>'' @ post)))"
proof (intro conjI impI)
  assume a: "snd (walk_supplies dev) = None
      \<and> mset (range_supplies dev (foldl supplies_callback [] (fst (walk_supplies dev))))
          = mset (foldl supplies_callback [] (fst (walk_supplies dev)))
      \<and> (i, s) \<in> set (foldl supplies_callback [] (fst (walk_supplies dev)))
      \<and> Description s = ''''"
  from a have a1: "snd (walk_supplies dev) = None"
    and a2: "mset (range_supplies dev (foldl supplies_callback [] (fst (walk_supplies dev))))
          = mset (foldl supplies_callback [] (fst (walk_supplies dev)))"
    and a3: "(i, s) \<in> set (foldl supplies_callback [] (fst (walk_supplies dev)))"
    and a4: "Description s = ''''"
    by simp_all
  obtain pre post where "supplies_section dev = pre @ supply_line s @ post"
    using supplies_section_line[OF a1 a2 a3] by blast
  moreover obtain rest where
    "supply_line s = ''    - Unknown Supply: '' @ itoa (Level s) @ rest @ ''\<newline>''"
    using supply_line_unknown[OF a4] by blast
  ultimately have sec: "supplies_section dev =
      pre @ ''    - Unknown Supply: '' @ itoa (Level s) @ rest @ ''\<newline>'' @ post"
    by simp
  then show "\<exists>pre rest post. supplies_section dev =
            pre @ ''    - Unknown Supply: '' @ itoa (Level s) @ rest @ ''\<newline>'' @ post"
    by blast
  assume "connect_err dev = None \<and> get_result dev = Inr variables"
  then have "pollPrinter ip dev =
     (''\<newline>'' @ [CHR 0xF0, CHR 0x9F, CHR 0x96, CHR 0xA8, CHR 0xEF, CHR 0xB8, CHR 0x8F]
      @ '' Printer Report for '' @ ip @ '':\<newline>''
      @ concat (map print_variable variables))
     @ supplies_section dev @ trays_section dev"
    using pollPrinter_sections[of dev variables ip] by blast
  then have "pollPrinter ip dev =
     ((''\<newline>'' @ [CHR 0xF0, CHR 0x9F, CHR 0x96, CHR 0xA8, CHR 0xEF, CHR 0xB8, CHR 0x8F]
       @ '' Printer Report for '' @ ip @ '':\<newline>''
       @ concat (map print_variable variables)) @ pre)
     @ ''    - Unknown Supply: '' @ itoa (Level s) @ rest @ ''\<newline>''
     @ (post @ trays_section dev)"
    by (simp only: sec append_assoc)
  then show "\<exists>pre rest post. pollPrinter ip dev =
            pre @ ''    - Unknown Supply: '' @ itoa (Level s) @ rest @ ''\<newline>'' @ post"
    by blast
next
  assume a: "snd (walk_trays dev) = None
      \<and> mset (range_trays dev (foldl trays_callback [] (fst (walk_trays dev))))
          = mset (foldl trays_callback [] (fst (walk_trays dev)))
      \<and> (j, t) \<in> set (foldl trays_callback [] (fst (walk_trays dev)))
      \<and> Name t = ''''"
  from a have a1: "snd (walk_trays dev) = None"
    and a2: "mset (range_trays dev (foldl trays_callback [] (fst (walk_trays dev))))
          = mset (foldl trays_callback [] (fst (walk_trays dev)))"
    and a3: "(j, t) \<in> set (foldl trays_callback [] (fst (walk_trays dev)))"
    and a4: "Name t = ''''"
    by simp_all
  obtain pre post where "trays_section dev = pre @ tray_line t @ post"
    using trays_section_line[OF a1 a2 a3] by blast
  moreover obtain rest where
    "tray_line t = ''    - Unknown Tray: '' @ itoa (CurrentLevel t) @ rest @ ''\<newline>''"
    using tray_line_unknown[OF a4] by blast
  ultimately have sec: "trays_section dev =
      pre @ ''    - Unknown Tray: '' @ itoa (CurrentLevel t) @ rest @ ''\<newline>'' @ post"
    by simp
  then show "\<exists>pre rest post. trays_section dev =
            pre @ ''    - Unknown Tray: '' @ itoa (CurrentLevel t) @ rest @ ''\<newline>'' @ post"
    by blast
  assume "connect_err dev = None \<and> get_result dev = Inr variables"
  then have "pollPrinter ip dev =
     (''\<newline>'' @ [CHR 0xF0, CHR 0x9F, CHR 0x96, CHR 0xA8, CHR 0xEF, CHR 0xB8, CHR 0x8F]
      @ '' Printer Report for '' @ ip @ '':\<newline>''
      @ concat (map print_variable variables))
     @ supplies_section dev @ trays_section dev"
    using pollPrinter_sections[of dev variables ip] by blast
  then have "pollPrinter ip dev =
     ((''\<newline>'' @ [CHR 0xF0, CHR 0x9F, CHR 0x96, CHR 0xA8, CHR 0xEF, CHR 0xB8, CHR 0x8F]
       @ '' Printer Report for '' @ ip @ '':\<newline>''
       @ concat (map print_variable variables)) @ supplies_section dev @ pre)
     @ ''    - Unknown Tray: '' @ itoa (CurrentLevel t) @ rest @ ''\<newline>''
     @ post"
    by (simp only: sec append_assoc)
  then show "\<exists>pre rest post. pollPrinter ip dev =
            pre @ ''    - Unknown Tray: '' @ itoa (CurrentLevel t) @ rest @ ''\<newline>'' @ post"
    by blast
qed

theorem unknown_placeholders_witness:
  "snd (walk_supplies no_trays_device) = None
   \<and> foldl supplies_callback [] (fst (walk_supplies no_trays_device))
     = [(1, \<lparr>Description = '''', Level = 80, MaxCapacity = 100\<rparr>)]
   \<and> foldl trays_callback [] (fst (walk_trays no_trays_device)) = []
   \<and> (\<exists>pre rest post. pollPrinter ''10.0.0.9'' no_trays_device =
          pre @ ''    - Unknown Supply: '' @ itoa 80 @ rest @ ''\<newline>'' @ post)
   \<and> snd (walk_supplies degraded_device) = Some ''request timeout''
   \<and> snd (walk_trays degraded_device) = None
   \<and> foldl trays_callback [] (fst (walk_trays degraded_device))
     = [(1, \<lparr>Name = '''', CurrentLevel = 150, TrayMaxCapacity = 0\<rparr>)]
   \<and> (\<exists>pre rest post. pollPrinter ''10.0.0.7'' degraded_device =
          pre @ ''    - Unknown Tray: '' @ itoa 150 @ rest @ ''\<newline>'' @ post)"
proof -
  let ?s = "\<lparr>Description = '''', Level = 80, MaxCapacity = 100\<rparr>"
  let ?t = "\<lparr>Name = '''', CurrentLevel = 150, TrayMaxCapacity = 0\<rparr>"
  have s1: "snd (walk_supplies no_trays_device) = None"
    and s2: "foldl trays_callback [] (fst (walk_trays no_trays_device)) = []"
    and s3: "connect_err no_trays_device = None \<and> get_result no_trays_device = Inr []"
    by (simp_all add: no_trays_device_def)
  have s4: "snd (walk_supplies no_trays_device) = None
      \<and> mset (range_supplies no_trays_device
                (foldl supplies_callback [] (fst (walk_supplies no_trays_device))))
          = mset (foldl supplies_callback [] (fst (walk_supplies no_trays_device)))
      \<and> (1, ?s) \<in> set (foldl supplies_callback [] (fst (walk_supplies no_trays_device)))
      \<and> Description ?s = ''''"
    unfolding no_trays_supplies by (simp add: no_trays_device_def)
  have sup: "\<exists>pre rest post. pollPrinter ''10.0.0.9'' no_trays_device =
          pre @ ''    - Unknown Supply: '' @ itoa (Level ?s) @ rest @ ''\<newline>'' @ post"
    by (rule unknown_placeholders[where dev = no_trays_device and variables = "[]",
          THEN conjunct1, THEN mp, OF s4, THEN conjunct2, THEN mp, OF s3])
  have t1: "snd (walk_supplies degraded_device) = Some ''request timeout''"
    and t2: "snd (walk_trays degraded_device) = None"
    and t3: "connect_err degraded_device = None
             \<and> get_result degraded_device
               = Inr [\<lparr>pdu_Name = ''.1.3.6.1.2.1.25.3.5.1.1.1'', pdu_Type = Integer,
                       pdu_Value = IntV 3\<rparr>]"
    by (simp_all add: degraded_device_def)
  have t4: "snd (walk_trays degraded_device) = None
      \<and> mset (range_trays degraded_device
                (foldl trays_callback [] (fst (walk_trays degraded_device))))
          = mset (foldl trays_callback [] (fst (walk_trays degraded_device)))
      \<and> (1, ?t) \<in> set (foldl trays_callback [] (fst (walk_trays degraded_device)))
      \<and> Name ?t = ''''"
    unfolding degraded_trays by (simp add: degraded_device_def)
  have tr: "\<exists>pre rest post. pollPrinter ''10.0.0.7'' degraded_device =
          pre @ ''    - Unknown Tray: '' @ itoa (CurrentLevel ?t) @ rest @ ''\<newline>'' @ post"
    by (rule unknown_placeholders[where dev = degraded_device,
          THEN conjunct2, THEN mp, OF t4, THEN conjunct2, THEN mp, OF t3])
  from s1 s2 sup t1 t2 tr show ?thesis
    using no_trays_supplies degraded_trays by simp
qed

text \<open>
  A quotient times 100 that does not fit 64 bits: the percentage of level \<open>2^62\<close> of
  capacity 1 is printed as the smallest 64-bit integer.
\<close>

lemma percent_beyond_int64:
  "percent 4611686018427387904 1 = - 9223372036854775808"
  by (simp add: eval_float)

text \<open>
  C4. The percentage is \<open>int((float64(level) / float64(capacity)) * 100)\<close>. At level 29 of
  capacity 100 the quotient rounds to the binary64 value just below 0.29, the product to
  the one just below 29, and the report prints 28, while the floor of the exact
  \<open>100 * 29 / 100\<close> is 29.
\<close>

theorem percent_29_of_100:
  "percent 29 100 = 28 \<and> (100 * 29) div 100 = (29 :: int)
   \<and> supply_line \<lparr>Description = ''Black Ink'', Level = 29, MaxCapacity = 100\<rparr>
       = ''    - Black Ink: 29 (28% of 100)\<newline>''"
proof -
  have p: "percent 29 100 = 28" by (simp add: eval_float)
  then show ?thesis by (simp add: supply_line_def eval_fmt)
qed

text \<open>
  C5. A supply at level -3 is printed with the marker \<open>(unknown)\<close> and no percentage. A
  tray at level -3 is printed with neither: the loop over the trays has no branch for the
  sentinel.
\<close>

theorem tray_sentinel_has_no_marker:
  "supply_line \<lparr>Description = ''Black Ink'', Level = - 3, MaxCapacity = 100\<rparr>
     = ''    - Black Ink: -3 (unknown)\<newline>''
   \<and> tray_line \<lparr>Name = ''Tray 1'', CurrentLevel = - 3, TrayMaxCapacity = 500\<rparr>
     = ''    - Tray 1: -3\<newline>''"
  by (simp add: supply_line_def tray_line_def eval_fmt)

text \<open>
  C8. The column is matched with \<open>strings.HasPrefix\<close> on the text of the identifier, with
  no dot after the number of the column, so the text of column 2 of the trays table is also
  a prefix of columns 20 to 29, and the text of column 9 a prefix of columns 90 to 99. An
  OBJECT IDENTIFIER in column 21 of row 1, which gosnmp hands over as a string, becomes the
  name of tray 1, and an INTEGER in column 90 of row 1 becomes its level.
\<close>

theorem trays_callback_column_21:
  "gosnmp_decoded
     \<lparr>pdu_Name = ''.1.3.6.1.2.1.43.8.2.1.21.1.1'', pdu_Type = ObjectIdentifier,
      pdu_Value = StrV ''.0.0''\<rparr>
   \<and> trays_callback []
       \<lparr>pdu_Name = ''.1.3.6.1.2.1.43.8.2.1.21.1.1'', pdu_Type = ObjectIdentifier,
        pdu_Value = StrV ''.0.0''\<rparr>
     = [(1, \<lparr>Name = ''.0.0'', CurrentLevel = 0, TrayMaxCapacity = 0\<rparr>)]
   \<and> gosnmp_decoded
       \<lparr>pdu_Name = ''.1.3.6.1.2.1.43.8.2.1.90.1.1'', pdu_Type = Integer, pdu_Value = IntV 7\<rparr>
   \<and> trays_callback []
       \<lparr>pdu_Name = ''.1.3.6.1.2.1.43.8.2.1.90.1.1'', pdu_Type = Integer, pdu_Value = IntV 7\<rparr>
     = [(1, \<lparr>Name = '''', CurrentLevel = 7, TrayMaxCapacity = 0\<rparr>)]"
  by (simp add: trays_callback_def gosnmp_decoded_def eval_oid)

subsection \<open>The block \<open>0.0.0.0/0\<close>\<close>

lemma four: "(4 :: nat) = Suc (Suc (Suc (Suc 0)))"
  by simp

lemma ff_minus: "(0xff :: byte) = - 1"
  by simp

lemma not_ff: "NOT (0xff :: byte) = 0"
  by (simp only: ff_minus) simp

lemma CIDRMask_loop_4_0: "CIDRMask_loop 4 0 = [0, 0, 0, 0]"
  unfolding four by (simp add: not_ff del: bit.compl_one)

lemma ParseCIDR4_slash0:
  "length addr = 4 \<Longrightarrow> ParseCIDR4 addr 0 = Some \<lparr>IP = [0, 0, 0, 0], Mask = [0, 0, 0, 0]\<rparr>"
proof -
  assume "length addr = 4"
  then obtain a b c d where "addr = [a, b, c, d]" using len4 by blast
  then show ?thesis by (simp add: ParseCIDR4_def CIDRMask_def CIDRMask_loop_4_0)
qed

lemma upt4: "[0..<4] = [0, 1, 2, 3]"
  by (simp add: upt_rec)

lemma Contains_slash0:
  "length ip = 4 \<Longrightarrow> Contains \<lparr>IP = [0, 0, 0, 0], Mask = [0, 0, 0, 0]\<rparr> ip"
  by (simp add: Contains_def networkNumberAndMask_def To4_def upt4)

text \<open>Whenever the loop returns, it was not started on a 4-octet address in this block.\<close>

lemma loop_slash0:
  assumes "scanNetwork_loop ipnet ip sent = Some y"
  shows "ipnet = \<lparr>IP = [0, 0, 0, 0], Mask = [0, 0, 0, 0]\<rparr> \<longrightarrow> length ip \<noteq> 4"
proof (rule scanNetwork_loop.raw_induct[where P = "\<lambda>ipnet ip sent y.
         ipnet = \<lparr>IP = [0, 0, 0, 0], Mask = [0, 0, 0, 0]\<rparr> \<longrightarrow> length ip \<noteq> 4", OF _ assms])
  fix loop ipnet ip sent y
  assume IH: "\<And>ipnet ip sent y. loop ipnet ip sent = Some y \<Longrightarrow>
                 ipnet = \<lparr>IP = [0, 0, 0, 0], Mask = [0, 0, 0, 0]\<rparr> \<longrightarrow> length ip \<noteq> 4"
    and body: "(if Contains ipnet ip then
                  (case incIP ip of None \<Rightarrow> Some (sent @ [ip])
                   | Some ip' \<Rightarrow> loop ipnet ip' (sent @ [ip]))
                else Some sent) = Some y"
  show "ipnet = \<lparr>IP = [0, 0, 0, 0], Mask = [0, 0, 0, 0]\<rparr> \<longrightarrow> length ip \<noteq> 4"
  proof (intro impI notI)
    assume net: "ipnet = \<lparr>IP = [0, 0, 0, 0], Mask = [0, 0, 0, 0]\<rparr>" and len: "length ip = 4"
    have c: "Contains ipnet ip" using Contains_slash0[OF len] net by simp
    from body c incIP_4(1)[OF len]
    have "loop ipnet (incIP_loop 4 ip) (sent @ [ip]) = Some y" by simp
    from IH[OF this] net incIP_4(2)[OF len] show False by simp
  qed
qed

lemma loop_slash0_None:
  "length ip = 4 \<Longrightarrow>
   scanNetwork_loop \<lparr>IP = [0, 0, 0, 0], Mask = [0, 0, 0, 0]\<rparr> ip sent = None"
  using loop_slash0[of "\<lparr>IP = [0, 0, 0, 0], Mask = [0, 0, 0, 0]\<rparr>" ip sent]
  by (cases "scanNetwork_loop \<lparr>IP = [0, 0, 0, 0], Mask = [0, 0, 0, 0]\<rparr> ip sent") auto

text \<open>
  C3. \<open>net.ParseCIDR\<close> accepts \<open>0.0.0.0/0\<close>; its block contains every 4-octet address and
  \<open>incIP\<close> never answers nil on one, so the enumeration loop of \<open>scanNetwork\<close> is never
  left on this block.
\<close>

theorem slash0_never_ends:
  "ParseCIDR4 [0, 0, 0, 0] 0 = Some \<lparr>IP = [0, 0, 0, 0], Mask = [0, 0, 0, 0]\<rparr>
   \<and> scanNetwork_enum \<lparr>IP = [0, 0, 0, 0], Mask = [0, 0, 0, 0]\<rparr> = None"
  by (simp add: ParseCIDR4_slash0 scanNetwork_enum_def loop_slash0_None)

text \<open>
  C1. On \<open>0.0.0.0/0\<close> the loop, having sent 255.255.255.255, goes on with 0.0.0.0, which
  the block contains: the addresses are sent again, and more than \<open>2^32\<close> of them.
\<close>

theorem slash0_wraps_around:
  "Contains \<lparr>IP = [0, 0, 0, 0], Mask = [0, 0, 0, 0]\<rparr> [255, 255, 255, 255]
   \<and> incIP [255, 255, 255, 255] = Some [0, 0, 0, 0]
   \<and> Contains \<lparr>IP = [0, 0, 0, 0], Mask = [0, 0, 0, 0]\<rparr> [0, 0, 0, 0]
   \<and> scanNetwork_loop \<lparr>IP = [0, 0, 0, 0], Mask = [0, 0, 0, 0]\<rparr> [255, 255, 255, 255] sent
       = scanNetwork_loop \<lparr>IP = [0, 0, 0, 0], Mask = [0, 0, 0, 0]\<rparr> [0, 0, 0, 0]
           (sent @ [[255, 255, 255, 255]])"
proof -
  have i: "incIP [255, 255, 255, 255] = Some [0, 0, 0, 0]"
    by (simp add: incIP_def To4_def incIP_loop_4)
  have c: "Contains \<lparr>IP = [0, 0, 0, 0], Mask = [0, 0, 0, 0]\<rparr> [255, 255, 255, 255]"
    by (rule Contains_slash0) simp
  have "scanNetwork_loop \<lparr>IP = [0, 0, 0, 0], Mask = [0, 0, 0, 0]\<rparr> [255, 255, 255, 255] sent
       = scanNetwork_loop \<lparr>IP = [0, 0, 0, 0], Mask = [0, 0, 0, 0]\<rparr> [0, 0, 0, 0]
           (sent @ [[255, 255, 255, 255]])"
    by (subst scanNetwork_loop.simps) (simp add: i c)
  with i c show ?thesis by (simp add: Contains_slash0)
qed

subsection \<open>The report of one device among the others\<close>

lemma foldl_append_concat:
  "foldl (\<lambda>out p. out @ f p) acc ps = acc @ concat (map f ps)"
  by (induction ps arbitrary: acc) simp_all

lemma report_printers_nonempty:
  "ps \<noteq> [] \<Longrightarrow>
   report_printers devs ps =
     [CHR 0xE2, CHR 0x9C, CHR 0x85] @ '' Found '' @ itoa (int (length ps))
     @ '' SNMP printers:\<newline>''
     @ concat (map (\<lambda>q. pollPrinter q (devs q)) ps)"
  by (simp add: report_printers_def foldl_append_concat)

lemma pollPrinter_report:
  assumes "connect_err dev = None"
    and "get_result dev = Inr variables"
  shows "pollPrinter ip dev =
           ''\<newline>'' @ [CHR 0xF0, CHR 0x9F, CHR 0x96, CHR 0xA8, CHR 0xEF, CHR 0xB8, CHR 0x8F]
           @ '' Printer Report for '' @ ip @ '':\<newline>''
           @ concat (map print_variable variables)
           @ (if snd (walk_supplies dev) = None
                 \<and> foldl supplies_callback [] (fst (walk_supplies dev)) \<noteq> []
              then ''  Supplies:\<newline>''
                   @ concat (map (\<lambda>(index, supply). supply_line supply)
                       (range_supplies dev (foldl supplies_callback [] (fst (walk_supplies dev)))))
              else ''  Supplies: (No data available: '' @ show_err (snd (walk_supplies dev))
                   @ '')\<newline>'')
           @ (if snd (walk_trays dev) = None
                 \<and> foldl trays_callback [] (fst (walk_trays dev)) \<noteq> []
              then ''  Paper Trays:\<newline>''
                   @ concat (map (\<lambda>(index, tray). tray_line tray)
                       (range_trays dev (foldl trays_callback [] (fst (walk_trays dev)))))
              else ''  Paper Trays: (No data available: '' @ show_err (snd (walk_trays dev))
                   @ '')\<newline>'')"
proof -
  have s: "supplies_section dev =
      (if snd (walk_supplies dev) = None
          \<and> foldl supplies_callback [] (fst (walk_supplies dev)) \<noteq> []
       then ''  Supplies:\<newline>''
            @ concat (map (\<lambda>(index, supply). supply_line supply)
                (range_supplies dev (foldl supplies_callback [] (fst (walk_supplies dev)))))
       else ''  Supplies: (No data available: '' @ show_err (snd (walk_supplies dev))
            @ '')\<newline>'')"
    by (simp add: supplies_section_def Let_def)
  have t: "trays_section dev =
      (if snd (walk_trays dev) = None
          \<and> foldl trays_callback [] (fst (walk_trays dev)) \<noteq> []
       then ''  Paper Trays:\<newline>''
            @ concat (map (\<lambda>(index, tray). tray_line tray)
                (range_trays dev (foldl trays_callback [] (fst (walk_trays dev)))))
       else ''  Paper Trays: (No data available: '' @ show_err (snd (walk_trays dev))
            @ '')\<newline>'')"
    by (simp add: trays_section_def Let_def)
  show ?thesis
    unfolding pollPrinter_sections[OF assms] s t by simp
qed

text \<open>
  C6. The report of a device that answers the connection and the batch fetch is its
  header and single values, then the Supplies section, then the Paper Trays section. Each
  section is decided by its own walk alone: the lines of the table when the walk returned
  no error and at least one entry, and else the note \<open>(No data available: ...)\<close> with the
  error of that walk (\<open><nil>\<close> for a walk that ended without an entry); the other
  section is not touched. So a failed or empty supplies walk next to a trays walk with
  entries gives the note for supplies and the lines of the trays, and the other way round.
  The reports of the devices before and after it in the list are the texts \<open>pollPrinter\<close>
  writes for them from their own answers, and they stay the same whatever this device
  answers instead.
\<close>

theorem graceful_degradation:
  assumes "connect_err (devices ip) = None"
    and "get_result (devices ip) = Inr variables"
    and "supplies = foldl supplies_callback [] (fst (walk_supplies (devices ip)))"
    and "trays = foldl trays_callback [] (fst (walk_trays (devices ip)))"
    and "\<And>q. q \<noteq> ip \<Longrightarrow> devices' q = devices q"
    and "ip \<notin> set before" and "ip \<notin> set after"
  shows "report_printers devices (before @ ip # after) =
           [CHR 0xE2, CHR 0x9C, CHR 0x85] @ '' Found ''
           @ itoa (int (length (before @ ip # after))) @ '' SNMP printers:\<newline>''
           @ concat (map (\<lambda>q. pollPrinter q (devices q)) before)
           @ (''\<newline>'' @ [CHR 0xF0, CHR 0x9F, CHR 0x96, CHR 0xA8, CHR 0xEF, CHR 0xB8, CHR 0x8F]
              @ '' Printer Report for '' @ ip @ '':\<newline>''
              @ concat (map print_variable variables)
              @ (if snd (walk_supplies (devices ip)) = None \<and> supplies \<noteq> []
                 then ''  Supplies:\<newline>''
                      @ concat (map (\<lambda>(index, supply). supply_line supply)
                          (range_supplies (devices ip) supplies))
                 else ''  Supplies: (No data available: ''
                      @ show_err (snd (walk_supplies (devices ip))) @ '')\<newline>'')
              @ (if snd (walk_trays (devices ip)) = None \<and> trays \<noteq> []
                 then ''  Paper Trays:\<newline>''
                      @ concat (map (\<lambda>(index, tray). tray_line tray)
                          (range_trays (devices ip) trays))
                 else ''  Paper Trays: (No data available: ''
                      @ show_err (snd (walk_trays (devices ip))) @ '')\<newline>''))
           @ concat (map (\<lambda>q. pollPrinter q (devices q)) after)
       \<and> (mset (range_supplies (devices ip) supplies) = mset supplies \<longrightarrow>
            set (range_supplies (devices ip) supplies) = set supplies)
       \<and> (mset (range_trays (devices ip) trays) = mset trays \<longrightarrow>
            set (range_trays (devices ip) trays) = set trays)
       \<and> report_printers devices' (before @ ip # after) =
           [CHR 0xE2, CHR 0x9C, CHR 0x85] @ '' Found ''
           @ itoa (int (length (before @ ip # after))) @ '' SNMP printers:\<newline>''
           @ concat (map (\<lambda>q. pollPrinter q (devices q)) before)
           @ pollPrinter ip (devices' ip)
           @ concat (map (\<lambda>q. pollPrinter q (devices q)) after)"
proof (intro conjI impI)
  have d: "pollPrinter ip (devices ip) =
           ''\<newline>'' @ [CHR 0xF0, CHR 0x9F, CHR 0x96, CHR 0xA8, CHR 0xEF, CHR 0xB8, CHR 0x8F]
           @ '' Printer Report for '' @ ip @ '':\<newline>''
           @ concat (map print_variable variables)
           @ (if snd (walk_supplies (devices ip)) = None \<and> supplies \<noteq> []
              then ''  Supplies:\<newline>''
                   @ concat (map (\<lambda>(index, supply). supply_line supply)
                       (range_supplies (devices ip) supplies))
              else ''  Supplies: (No data available: ''
                   @ show_err (snd (walk_supplies (devices ip))) @ '')\<newline>'')
           @ (if snd (walk_trays (devices ip)) = None \<and> trays \<noteq> []
              then ''  Paper Trays:\<newline>''
                   @ concat (map (\<lambda>(index, tray). tray_line tray)
                       (range_trays (devices ip) trays))
              else ''  Paper Trays: (No data available: ''
                   @ show_err (snd (walk_trays (devices ip))) @ '')\<newline>'')"
    unfolding assms(3,4) by (rule pollPrinter_report[OF assms(1,2)])
  show "report_printers devices (before @ ip # after) =
           [CHR 0xE2, CHR 0x9C, CHR 0x85] @ '' Found ''
           @ itoa (int (length (before @ ip # after))) @ '' SNMP printers:\<newline>''
           @ concat (map (\<lambda>q. pollPrinter q (devices q)) before)
           @ (''\<newline>'' @ [CHR 0xF0, CHR 0x9F, CHR 0x96, CHR 0xA8, CHR 0xEF, CHR 0xB8, CHR 0x8F]
              @ '' Printer Report for '' @ ip @ '':\<newline>''
              @ concat (map print_variable variables)
              @ (if snd (walk_supplies (devices ip)) = None \<and> supplies \<noteq> []
                 then ''  Supplies:\<newline>''
                      @ concat (map (\<lambda>(index, supply). supply_line supply)
                          (range_supplies (devices ip) supplies))
                 else ''  Supplies: (No data available: ''
                      @ show_err (snd (walk_supplies (devices ip))) @ '')\<newline>'')
              @ (if snd (walk_trays (devices ip)) = None \<and> trays \<noteq> []
                 then ''  Paper Trays:\<newline>''
                      @ concat (map (\<lambda>(index, tray). tray_line tray)
                          (range_trays (devices ip) trays))
                 else ''  Paper Trays: (No data available: ''
                      @ show_err (snd (walk_trays (devices ip))) @ '')\<newline>''))
           @ concat (map (\<lambda>q. pollPrinter q (devices q)) after)"
    by (subst report_printers_nonempty) (simp_all only: d list.simps map_append concat_append
        concat.simps append_assoc not_Cons_self2 append_is_Nil_conv simp_thms)
  show "set (range_supplies (devices ip) supplies) = set supplies"
    if "mset (range_supplies (devices ip) supplies) = mset supplies"
    using that by (metis set_mset_mset)
  show "set (range_trays (devices ip) trays) = set trays"
    if "mset (range_trays (devices ip) trays) = mset trays"
    using that by (metis set_mset_mset)
  have b: "map (\<lambda>q. pollPrinter q (devices' q)) before = map (\<lambda>q. pollPrinter q (devices q)) before"
  proof (rule map_cong[OF refl])
    fix q assume "q \<in> set before"
    with assms(6) have "q \<noteq> ip" by blast
    then show "pollPrinter q (devices' q) = pollPrinter q (devices q)" by (simp add: assms(5))
  qed
  have a: "map (\<lambda>q. pollPrinter q (devices' q)) after = map (\<lambda>q. pollPrinter q (devices q)) after"
  proof (rule map_cong[OF refl])
    fix q assume "q \<in> set after"
    with assms(7) have "q \<noteq> ip" by blast
    then show "pollPrinter q (devices' q) = pollPrinter q (devices q)" by (simp add: assms(5))
  qed
  show "report_printers devices' (before @ ip # after) =
           [CHR 0xE2, CHR 0x9C, CHR 0x85] @ '' Found ''
           @ itoa (int (length (before @ ip # after))) @ '' SNMP printers:\<newline>''
           @ concat (map (\<lambda>q. pollPrinter q (devices q)) before)
           @ pollPrinter ip (devices' ip)
           @ concat (map (\<lambda>q. pollPrinter q (devices q)) after)"
    by (subst report_printers_nonempty) (simp_all add: a b)
qed

theorem graceful_degradation_witness:
  "connect_err (example_devices ''10.0.0.7'') = None
   \<and> snd (walk_supplies (example_devices ''10.0.0.7'')) = Some ''request timeout''
   \<and> snd (walk_trays (example_devices ''10.0.0.7'')) = None
   \<and> connect_err (example_devices ''10.0.0.9'') = None
   \<and> snd (walk_supplies (example_devices ''10.0.0.9'')) = None
   \<and> walk_trays (example_devices ''10.0.0.9'') = ([], None)
   \<and> report_printers example_devices [''10.0.0.5'', ''10.0.0.7'', ''10.0.0.9''] =
       [CHR 0xE2, CHR 0x9C, CHR 0x85] @ '' Found 3 SNMP printers:\<newline>''
       @ (''\<newline>'' @ [CHR 0xF0, CHR 0x9F, CHR 0x96, CHR 0xA8, CHR 0xEF, CHR 0xB8, CHR 0x8F]
          @ '' Printer Report for 10.0.0.5:\<newline>''
          @ ''  Supplies:\<newline>''
          @ ''    - Unknown Supply: 80 (80% of 100)\<newline>''
          @ ''  Paper Trays:\<newline>''
          @ ''    - Unknown Tray: 150\<newline>'')
       @ (''\<newline>'' @ [CHR 0xF0, CHR 0x9F, CHR 0x96, CHR 0xA8, CHR 0xEF, CHR 0xB8, CHR 0x8F]
          @ '' Printer Report for 10.0.0.7:\<newline>''
          @ ''  Printer Status: idle\<newline>''
          @ ''  Supplies: (No data available: request timeout)\<newline>''
          @ ''  Paper Trays:\<newline>''
          @ ''    - Unknown Tray: 150\<newline>'')
       @ (''\<newline>'' @ [CHR 0xF0, CHR 0x9F, CHR 0x96, CHR 0xA8, CHR 0xEF, CHR 0xB8, CHR 0x8F]
          @ '' Printer Report for 10.0.0.9:\<newline>''
          @ ''  Supplies:\<newline>''
          @ ''    - Unknown Supply: 80 (80% of 100)\<newline>''
          @ ''  Paper Trays: (No data available: <nil>)\<newline>'')"
proof -
  let ?ip = "''10.0.0.7''"
  let ?trays = "[(1 :: int, \<lparr>Name = '''', CurrentLevel = 150, TrayMaxCapacity = 0\<rparr>)]"
  let ?supplies = "[(1 :: int, \<lparr>Description = '''', Level = 80, MaxCapacity = 100\<rparr>)]"
  have dev: "example_devices ?ip = degraded_device" by (simp add: example_devices_def)
  have h1: "connect_err (example_devices ?ip) = None"
    and h2: "get_result (example_devices ?ip)
             = Inr [\<lparr>pdu_Name = ''.1.3.6.1.2.1.25.3.5.1.1.1'', pdu_Type = Integer, pdu_Value = IntV 3\<rparr>]"
    and h4: "snd (walk_trays (example_devices ?ip)) = None"
    and s: "snd (walk_supplies (example_devices ?ip)) = Some ''request timeout''"
    by (simp_all add: dev degraded_device_def)
  have h5: "?trays = foldl trays_callback [] (fst (walk_trays (example_devices ?ip)))"
    by (simp add: dev degraded_trays)
  have h9: "?ip \<notin> set [''10.0.0.5'']" and h10: "?ip \<notin> set [''10.0.0.9'']" by simp_all
  have o5: "example_devices ''10.0.0.5'' = example_device"
    and o9: "example_devices ''10.0.0.9'' = no_trays_device"
    by (simp_all add: example_devices_def)
  have r: "range_trays (example_devices ?ip) ?trays = ?trays"
    by (simp add: dev degraded_device_def)
  have h8: "\<And>q. q \<noteq> ?ip \<Longrightarrow> example_devices q = example_devices q" by simp
  have p80: "percent 80 100 = 80" by (simp add: eval_float)
  have line_s: "supply_line \<lparr>Description = '''', Level = 80, MaxCapacity = 100\<rparr>
                = ''    - Unknown Supply: 80 (80% of 100)\<newline>''"
    by (simp add: supply_line_def p80 eval_fmt)
  have line_t: "tray_line \<lparr>Name = '''', CurrentLevel = 150, TrayMaxCapacity = 0\<rparr>
                = ''    - Unknown Tray: 150\<newline>''"
    by (simp add: tray_line_def eval_fmt)
  have p5: "pollPrinter ''10.0.0.5'' example_device =
          ''\<newline>'' @ [CHR 0xF0, CHR 0x9F, CHR 0x96, CHR 0xA8, CHR 0xEF, CHR 0xB8, CHR 0x8F]
          @ '' Printer Report for 10.0.0.5:\<newline>''
          @ ''  Supplies:\<newline>''
          @ ''    - Unknown Supply: 80 (80% of 100)\<newline>''
          @ ''  Paper Trays:\<newline>''
          @ ''    - Unknown Tray: 150\<newline>''"
    unfolding pollPrinter_def supplies_section_def trays_section_def Let_def
      example_supplies example_trays
    by (simp add: example_device_def line_s line_t)
  have p9: "pollPrinter ''10.0.0.9'' no_trays_device =
          ''\<newline>'' @ [CHR 0xF0, CHR 0x9F, CHR 0x96, CHR 0xA8, CHR 0xEF, CHR 0xB8, CHR 0x8F]
          @ '' Printer Report for 10.0.0.9:\<newline>''
          @ ''  Supplies:\<newline>''
          @ ''    - Unknown Supply: 80 (80% of 100)\<newline>''
          @ ''  Paper Trays: (No data available: <nil>)\<newline>''"
    unfolding pollPrinter_def supplies_section_def trays_section_def Let_def
      no_trays_supplies
    by (simp add: no_trays_device_def line_s show_err_def)
  from graceful_degradation[where devices = example_devices and devices' = example_devices
      and ip = ?ip and before = "[''10.0.0.5'']" and after = "[''10.0.0.9'']",
      OF h1 h2 refl h5 h8 h9 h10]
  have "report_printers example_devices ([''10.0.0.5''] @ ?ip # [''10.0.0.9'']) =
           [CHR 0xE2, CHR 0x9C, CHR 0x85] @ '' Found ''
           @ itoa (int (length ([''10.0.0.5''] @ ?ip # [''10.0.0.9'']))) @ '' SNMP printers:\<newline>''
           @ concat (map (\<lambda>q. pollPrinter q (example_devices q)) [''10.0.0.5''])
           @ (''\<newline>'' @ [CHR 0xF0, CHR 0x9F, CHR 0x96, CHR 0xA8, CHR 0xEF, CHR 0xB8, CHR 0x8F]
              @ '' Printer Report for '' @ ?ip @ '':\<newline>''
              @ concat (map print_variable
                  [\<lparr>pdu_Name = ''.1.3.6.1.2.1.25.3.5.1.1.1'', pdu_Type = Integer, pdu_Value = IntV 3\<rparr>])
              @ (if snd (walk_supplies (example_devices ?ip)) = None
                    \<and> foldl supplies_callback [] (fst (walk_supplies (example_devices ?ip))) \<noteq> []
                 then ''  Supplies:\<newline>''
                      @ concat (map (\<lambda>(index, supply). supply_line supply)
                          (range_supplies (example_devices ?ip)
                             (foldl supplies_callback [] (fst (walk_supplies (example_devices ?ip))))))
                 else ''  Supplies: (No data available: ''
                      @ show_err (snd (walk_supplies (example_devices ?ip))) @ '')\<newline>'')
              @ (if snd (walk_trays (example_devices ?ip)) = None \<and> ?trays \<noteq> []
                 then ''  Paper Trays:\<newline>''
                      @ concat (map (\<lambda>(index, tray). tray_line tray)
                          (range_trays (example_devices ?ip) ?trays))
                 else ''  Paper Trays: (No data available: ''
                      @ show_err (snd (walk_trays (example_devices ?ip))) @ '')\<newline>''))
           @ concat (map (\<lambda>q. pollPrinter q (example_devices q)) [''10.0.0.9''])"
    by blast
  then have "report_printers example_devices [''10.0.0.5'', ''10.0.0.7'', ''10.0.0.9''] =
       [CHR 0xE2, CHR 0x9C, CHR 0x85] @ '' Found 3 SNMP printers:\<newline>''
       @ pollPrinter ''10.0.0.5'' example_device
       @ (''\<newline>'' @ [CHR 0xF0, CHR 0x9F, CHR 0x96, CHR 0xA8, CHR 0xEF, CHR 0xB8, CHR 0x8F]
          @ '' Printer Report for 10.0.0.7:\<newline>''
          @ ''  Printer Status: idle\<newline>''
          @ ''  Supplies: (No data available: request timeout)\<newline>''
          @ ''  Paper Trays:\<newline>''
          @ ''    - Unknown Tray: 150\<newline>'')
       @ pollPrinter ''10.0.0.9'' no_trays_device"
    by (simp add: o5 o9 r s h4 show_err_def print_variable_def printerStatusMap_def
        line_t eval_fmt)
  then have rep: "report_printers example_devices [''10.0.0.5'', ''10.0.0.7'', ''10.0.0.9''] =
       [CHR 0xE2, CHR 0x9C, CHR 0x85] @ '' Found 3 SNMP printers:\<newline>''
       @ (''\<newline>'' @ [CHR 0xF0, CHR 0x9F, CHR 0x96, CHR 0xA8, CHR 0xEF, CHR 0xB8, CHR 0x8F]
          @ '' Printer Report for 10.0.0.5:\<newline>''
          @ ''  Supplies:\<newline>''
          @ ''    - Unknown Supply: 80 (80% of 100)\<newline>''
          @ ''  Paper Trays:\<newline>''
          @ ''    - Unknown Tray: 150\<newline>'')
       @ (''\<newline>'' @ [CHR 0xF0, CHR 0x9F, CHR 0x96, CHR 0xA8, CHR 0xEF, CHR 0xB8, CHR 0x8F]
          @ '' Printer Report for 10.0.0.7:\<newline>''
          @ ''  Printer Status: idle\<newline>''
          @ ''  Supplies: (No data available: request timeout)\<newline>''
          @ ''  Paper Trays:\<newline>''
          @ ''    - Unknown Tray: 150\<newline>'')
       @ (''\<newline>'' @ [CHR 0xF0, CHR 0x9F, CHR 0x96, CHR 0xA8, CHR 0xEF, CHR 0xB8, CHR 0x8F]
          @ '' Printer Report for 10.0.0.9:\<newline>''
          @ ''  Supplies:\<newline>''
          @ ''    - Unknown Supply: 80 (80% of 100)\<newline>''
          @ ''  Paper Trays: (No data available: <nil>)\<newline>'')"
    unfolding p5 p9 .
  have w9: "connect_err (example_devices ''10.0.0.9'') = None"
    "snd (walk_supplies (example_devices ''10.0.0.9'')) = None"
    "walk_trays (example_devices ''10.0.0.9'') = ([], None)"
    by (simp_all add: o9 no_trays_device_def)
  from h1 s h4 w9 rep show ?thesis by (intro conjI)
qed

subsection \<open>A byte of the mask\<close>

lemma bit_cidr_byte:
  "bit (x AND NOT (drop_bit n (0xff :: byte))) i \<longleftrightarrow> bit x i \<and> 8 \<le> n + i"
  by (auto simp: bit_simps ff_minus dest: bit_imp_le_length)

lemma bit_push_drop_byte:
  "bit (push_bit k (drop_bit k (x :: byte))) i \<longleftrightarrow> bit x i \<and> k \<le> i"
  by (auto simp: bit_simps dest: bit_imp_le_length)

lemma cidr_byte_push:
  "n \<le> 8 \<Longrightarrow> x AND NOT (drop_bit n (0xff :: byte)) = push_bit (8 - n) (drop_bit (8 - n) x)"
  by (rule bit_eqI) (simp only: bit_cidr_byte bit_push_drop_byte, auto)

lemma unat_drop_byte: "unat (drop_bit k (x :: byte)) = unat x div 2 ^ k"
  unfolding unat_drop_bit_eq by (rule drop_bit_eq_div)

lemma unat_push_byte: "unat (push_bit k (w :: byte)) = (unat w * 2 ^ k) mod 256"
proof -
  have "unat (push_bit k w) = take_bit 8 (push_bit k (unat w))"
    using unsigned_push_bit_eq[of k w, where ?'a = nat] by simp
  also have "\<dots> = (unat w * 2 ^ k) mod 256"
    by (simp add: take_bit_eq_mod push_bit_eq_mult)
  finally show ?thesis .
qed

lemma unat_push_drop_byte:
  "unat (push_bit k (drop_bit k (x :: byte))) = unat x div 2 ^ k * 2 ^ k"
proof -
  have le: "unat x div 2 ^ k * 2 ^ k \<le> unat x"
    by simp
  have "unat (push_bit k (drop_bit k x)) = (unat x div 2 ^ k * 2 ^ k) mod 256"
    by (simp only: unat_push_byte unat_drop_byte)
  also have "\<dots> = unat x div 2 ^ k * 2 ^ k"
    by (intro mod_less le_less_trans[OF le unat_byte_less])
  finally show ?thesis .
qed

lemma unat_cidr_byte:
  "n \<le> 8 \<Longrightarrow> unat (x AND NOT (drop_bit n (0xff :: byte))) = unat x div 2 ^ (8 - n) * 2 ^ (8 - n)"
  by (simp only: cidr_byte_push unat_push_drop_byte)

lemma cidr_byte_eq:
  assumes "n \<le> 8"
  shows "(x AND NOT (drop_bit n (0xff :: byte)) = y AND NOT (drop_bit n 0xff))
     \<longleftrightarrow> unat x div 2 ^ (8 - n) = unat y div 2 ^ (8 - n)"
proof
  assume "x AND NOT (drop_bit n 0xff) = y AND NOT (drop_bit n 0xff)"
  then have "unat (x AND NOT (drop_bit n 0xff)) = unat (y AND NOT (drop_bit n 0xff))" by simp
  then show "unat x div 2 ^ (8 - n) = unat y div 2 ^ (8 - n)"
    by (simp only: unat_cidr_byte[OF assms]) simp
next
  assume "unat x div 2 ^ (8 - n) = unat y div 2 ^ (8 - n)"
  then have "unat (drop_bit (8 - n) x) = unat (drop_bit (8 - n) y)"
    by (simp only: unat_drop_byte)
  then have "drop_bit (8 - n) x = drop_bit (8 - n) y"
    by (simp only: word_unat_eq_iff)
  then show "x AND NOT (drop_bit n 0xff) = y AND NOT (drop_bit n 0xff)"
    by (simp only: cidr_byte_push[OF assms])
qed

subsection \<open>Arithmetic of the octets\<close>

lemma div_pow2_high: "K \<le> L \<Longrightarrow> (a * 2 ^ L + b) div 2 ^ K = a * 2 ^ (L - K) + b div (2 ^ K :: nat)"
proof -
  assume "K \<le> L"
  then have "(2 :: nat) ^ L = 2 ^ (L - K) * 2 ^ K"
    by (simp flip: power_add)
  then have "a * 2 ^ L + b = (a * 2 ^ (L - K)) * 2 ^ K + b"
    by simp
  then show ?thesis
    by (simp only: div_mult_self3) simp
qed

lemma div_pow2_low: "b < 2 ^ L \<Longrightarrow> (a * 2 ^ L + b) div 2 ^ (L + j) = a div (2 ^ j :: nat)"
proof -
  assume b: "b < 2 ^ L"
  have "(a * 2 ^ L + b) div 2 ^ (L + j) = (a * 2 ^ L + b) div 2 ^ L div 2 ^ j"
    by (simp add: power_add div_mult2_eq)
  also have "(a * 2 ^ L + b) div 2 ^ L = a"
    using b by simp
  finally show ?thesis .
qed

lemma div_pow2_less: "b < 2 ^ L \<Longrightarrow> K \<le> L \<Longrightarrow> b div 2 ^ K < (2 ^ (L - K) :: nat)"
proof -
  assume b: "b < 2 ^ L" and "K \<le> L"
  then have "(2 :: nat) ^ L = 2 ^ (L - K) * 2 ^ K"
    by (simp flip: power_add)
  with b show ?thesis
    by (simp add: less_mult_imp_div_less)
qed

lemma digits_eq_iff:
  "r1 < Q \<Longrightarrow> r2 < Q \<Longrightarrow> (a * Q + r1 = b * Q + r2) \<longleftrightarrow> (a = b \<and> r1 = (r2 :: nat))"
proof
  assume r: "r1 < Q" "r2 < Q" and e: "a * Q + r1 = b * Q + r2"
  have "(a * Q + r1) div Q = a" "(b * Q + r2) div Q = b"
    "(a * Q + r1) mod Q = r1" "(b * Q + r2) mod Q = r2"
    using r by simp_all
  with e show "a = b \<and> r1 = r2" by metis
qed simp

lemma ip_val_foldl:
  "foldl (\<lambda>acc b. 256 * acc + unat (b :: byte)) acc xs
   = acc * 2 ^ (8 * length xs) + foldl (\<lambda>acc b. 256 * acc + unat b) 0 xs"
proof (induction xs arbitrary: acc)
  case Nil
  then show ?case by simp
next
  case (Cons x xs)
  have p: "(2 :: nat) ^ (8 * length (x # xs)) = 256 * 2 ^ (8 * length xs)"
    by (simp add: power_add)
  show ?case
    apply (simp only: foldl_Cons p)
    apply (subst Cons.IH)
    apply (subst Cons.IH[of "256 * 0 + unat x"])
    apply (simp add: algebra_simps)
    done
qed

lemma ip_val_Cons: "ip_val (x # xs) = unat x * 2 ^ (8 * length xs) + ip_val xs"
  unfolding ip_val_def by (simp only: foldl_Cons) (subst ip_val_foldl, simp)

lemma ip_val_Nil: "ip_val [] = 0"
  by (simp add: ip_val_def)

lemma ip_val_bound: "ip_val xs < 2 ^ (8 * length xs)"
proof (induction xs)
  case Nil
  then show ?case by (simp add: ip_val_Nil)
next
  case (Cons x xs)
  have "unat x * 2 ^ (8 * length xs) + ip_val xs < (unat x + 1) * 2 ^ (8 * length xs)"
    using Cons.IH by simp
  also have "\<dots> \<le> 256 * 2 ^ (8 * length xs)"
    using unat_byte_less[of x] by (intro mult_le_mono1) simp
  finally show ?case by (simp add: ip_val_Cons power_add)
qed

lemma CIDRMask_loop_zero: "CIDRMask_loop l 0 = replicate l 0"
  by (induction l) (simp_all add: not_ff del: bit.compl_one)

lemma length_CIDRMask_loop: "length (CIDRMask_loop l n) = l"
  by (induction l arbitrary: n) simp_all

lemma ip_val_zeros: "ip_val (map2 (AND) xs (replicate l 0)) = 0"
proof (induction l arbitrary: xs)
  case 0
  then show ?case by (simp add: ip_val_Nil)
next
  case (Suc l)
  then show ?case by (cases xs) (simp_all add: ip_val_Nil ip_val_Cons)
qed

subsection \<open>The block of a mask, numerically\<close>

lemma masked_agree_iff:
  "length xs = l \<Longrightarrow> length ys = l \<Longrightarrow> n \<le> 8 * l \<Longrightarrow>
   (\<forall>i<l. xs ! i AND CIDRMask_loop l n ! i = ys ! i AND CIDRMask_loop l n ! i)
   \<longleftrightarrow> ip_val xs div 2 ^ (8 * l - n) = ip_val ys div 2 ^ (8 * l - n)"
proof (induction l arbitrary: xs ys n)
  case 0
  then show ?case by simp
next
  case (Suc l)
  from Suc.prems obtain x xs' where xs: "xs = x # xs'" and lx: "length xs' = l"
    by (cases xs) auto
  from Suc.prems obtain y ys' where ys: "ys = y # ys'" and ly: "length ys' = l"
    by (cases ys) auto
  show ?case
  proof (cases "8 \<le> n")
    case True
    let ?K = "8 * l - (n - 8)"
    have K: "8 * Suc l - n = ?K" and KL: "?K \<le> 8 * l" and n8: "n - 8 \<le> 8 * l"
      using True Suc.prems(3) by simp_all
    have IH: "(\<forall>i<l. xs' ! i AND CIDRMask_loop l (n - 8) ! i
                      = ys' ! i AND CIDRMask_loop l (n - 8) ! i)
              \<longleftrightarrow> ip_val xs' div 2 ^ ?K = ip_val ys' div 2 ^ ?K"
      by (rule Suc.IH[OF lx ly n8])
    have vx: "ip_val xs div 2 ^ ?K = unat x * 2 ^ (8 * l - ?K) + ip_val xs' div 2 ^ ?K"
      by (simp only: xs ip_val_Cons lx div_pow2_high[OF KL])
    have vy: "ip_val ys div 2 ^ ?K = unat y * 2 ^ (8 * l - ?K) + ip_val ys' div 2 ^ ?K"
      by (simp only: ys ip_val_Cons ly div_pow2_high[OF KL])
    have rx: "ip_val xs' div 2 ^ ?K < 2 ^ (8 * l - ?K)"
      using ip_val_bound[of xs'] lx by (intro div_pow2_less KL) simp
    have ry: "ip_val ys' div 2 ^ ?K < 2 ^ (8 * l - ?K)"
      using ip_val_bound[of ys'] ly by (intro div_pow2_less KL) simp
    have "(\<forall>i<Suc l. xs ! i AND CIDRMask_loop (Suc l) n ! i
                       = ys ! i AND CIDRMask_loop (Suc l) n ! i)
          \<longleftrightarrow> x = y \<and> (\<forall>i<l. xs' ! i AND CIDRMask_loop l (n - 8) ! i
                              = ys' ! i AND CIDRMask_loop l (n - 8) ! i)"
      using True by (simp add: xs ys All_less_Suc2 ff_minus)
    also have "\<dots> \<longleftrightarrow> unat x = unat y \<and> ip_val xs' div 2 ^ ?K = ip_val ys' div 2 ^ ?K"
      by (simp only: IH word_unat_eq_iff[of x y])
    also have "\<dots> \<longleftrightarrow> ip_val xs div 2 ^ ?K = ip_val ys div 2 ^ ?K"
      by (simp only: vx vy digits_eq_iff[OF rx ry])
    finally show ?thesis by (simp only: K)
  next
    case False
    then have n8: "n \<le> 8" by simp
    have K: "8 * Suc l - n = 8 * l + (8 - n)"
      using n8 by simp
    have bx: "ip_val xs' < 2 ^ (8 * l)" using ip_val_bound[of xs'] lx by simp
    have by': "ip_val ys' < 2 ^ (8 * l)" using ip_val_bound[of ys'] ly by simp
    have vx: "ip_val xs div 2 ^ (8 * l + (8 - n)) = unat x div 2 ^ (8 - n)"
      by (simp only: xs ip_val_Cons lx div_pow2_low[OF bx])
    have vy: "ip_val ys div 2 ^ (8 * l + (8 - n)) = unat y div 2 ^ (8 - n)"
      by (simp only: ys ip_val_Cons ly div_pow2_low[OF by'])
    have "(\<forall>i<Suc l. xs ! i AND CIDRMask_loop (Suc l) n ! i
                       = ys ! i AND CIDRMask_loop (Suc l) n ! i)
          \<longleftrightarrow> x AND NOT (drop_bit n 0xff) = y AND NOT (drop_bit n 0xff)"
      using False by (simp add: xs ys All_less_Suc2 CIDRMask_loop_zero del: bit.compl_one)
    also have "\<dots> \<longleftrightarrow> unat x div 2 ^ (8 - n) = unat y div 2 ^ (8 - n)"
      by (rule cidr_byte_eq[OF n8])
    finally show ?thesis by (simp only: K vx vy)
  qed
qed

lemma masked_val:
  "length xs = l \<Longrightarrow> n \<le> 8 * l \<Longrightarrow>
   ip_val (map2 (AND) xs (CIDRMask_loop l n)) = ip_val xs div 2 ^ (8 * l - n) * 2 ^ (8 * l - n)"
proof (induction l arbitrary: xs n)
  case 0
  then show ?case by (simp add: ip_val_Nil)
next
  case (Suc l)
  from Suc.prems obtain x xs' where xs: "xs = x # xs'" and lx: "length xs' = l"
    by (cases xs) auto
  have lm: "\<And>k. length (map2 (AND) xs' (CIDRMask_loop l k)) = l"
    by (simp add: lx length_CIDRMask_loop)
  show ?case
  proof (cases "8 \<le> n")
    case True
    let ?K = "8 * l - (n - 8)"
    have K: "8 * Suc l - n = ?K" and KL: "?K \<le> 8 * l" and n8: "n - 8 \<le> 8 * l"
      using True Suc.prems(2) by simp_all
    have p: "(2 :: nat) ^ (8 * l) = 2 ^ (8 * l - ?K) * 2 ^ ?K"
      using KL by (simp flip: power_add)
    have "ip_val (map2 (AND) xs (CIDRMask_loop (Suc l) n))
          = unat x * 2 ^ (8 * l) + ip_val (map2 (AND) xs' (CIDRMask_loop l (n - 8)))"
      using True by (simp add: xs ip_val_Cons lx length_CIDRMask_loop ff_minus)
    also have "\<dots> = unat x * 2 ^ (8 * l) + ip_val xs' div 2 ^ ?K * 2 ^ ?K"
      by (simp only: Suc.IH[OF lx n8])
    also have "\<dots> = (unat x * 2 ^ (8 * l - ?K) + ip_val xs' div 2 ^ ?K) * 2 ^ ?K"
      by (subst p) (simp add: algebra_simps)
    also have "\<dots> = ip_val xs div 2 ^ ?K * 2 ^ ?K"
      by (simp only: xs ip_val_Cons lx div_pow2_high[OF KL])
    finally show ?thesis by (simp only: K)
  next
    case False
    then have n8: "n \<le> 8" by simp
    have K: "8 * Suc l - n = 8 * l + (8 - n)"
      using n8 by simp
    have bx: "ip_val xs' < 2 ^ (8 * l)" using ip_val_bound[of xs'] lx by simp
    have "ip_val (map2 (AND) xs (CIDRMask_loop (Suc l) n))
          = unat (x AND NOT (drop_bit n 0xff)) * 2 ^ (8 * l)"
      using False
      by (simp add: xs ip_val_Cons CIDRMask_loop_zero ip_val_zeros lx del: bit.compl_one)
    also have "\<dots> = unat x div 2 ^ (8 - n) * 2 ^ (8 - n) * 2 ^ (8 * l)"
      by (simp only: unat_cidr_byte[OF n8])
    also have "\<dots> = unat x div 2 ^ (8 - n) * 2 ^ (8 * l + (8 - n))"
      by (simp add: power_add)
    also have "\<dots> = ip_val xs div 2 ^ (8 * l + (8 - n)) * 2 ^ (8 * l + (8 - n))"
      by (simp only: xs ip_val_Cons lx div_pow2_low[OF bx])
    finally show ?thesis by (simp only: K)
  qed
qed

subsection \<open>The enumeration of a block with a prefix of at least one bit\<close>

lemma ParseCIDR4_Some:
  "length addr = 4 \<Longrightarrow> p \<le> 32 \<Longrightarrow>
   ParseCIDR4 addr p
   = Some \<lparr>IP = map2 (AND) addr (CIDRMask_loop 4 p), Mask = CIDRMask_loop 4 p\<rparr>"
  by (simp add: ParseCIDR4_def CIDRMask_def)

lemma Contains_parsed:
  assumes "length addr = 4" and "length ip = 4" and "p \<le> 32"
  shows "Contains \<lparr>IP = map2 (AND) addr (CIDRMask_loop 4 p), Mask = CIDRMask_loop 4 p\<rparr> ip
         \<longleftrightarrow> ip_val ip div 2 ^ (32 - p) = ip_val addr div 2 ^ (32 - p)"
proof -
  let ?m = "CIDRMask_loop 4 p"
  have lm: "length ?m = 4" by (rule length_CIDRMask_loop)
  have nth: "\<And>i. i < 4 \<Longrightarrow> map2 (AND) addr ?m ! i = addr ! i AND ?m ! i"
    using assms(1) lm by simp
  have "Contains \<lparr>IP = map2 (AND) addr ?m, Mask = ?m\<rparr> ip
        \<longleftrightarrow> (\<forall>i<4. map2 (AND) addr ?m ! i AND ?m ! i = ip ! i AND ?m ! i)"
    using assms(1,2) lm
    by (auto simp: Contains_def networkNumberAndMask_def To4_def list_all_iff)
  also have "\<dots> \<longleftrightarrow> (\<forall>i<4. ip ! i AND ?m ! i = addr ! i AND ?m ! i)"
    by (auto simp: nth and.assoc)
  also have "\<dots> \<longleftrightarrow> ip_val ip div 2 ^ (8 * 4 - p) = ip_val addr div 2 ^ (8 * 4 - p)"
    using assms by (intro masked_agree_iff) simp_all
  finally show ?thesis by simp
qed

lemma in_block_iff:
  fixes v B N :: nat
  assumes "0 < N"
  shows "v div N = B \<longleftrightarrow> B * N \<le> v \<and> v < B * N + N"
proof
  assume "v div N = B"
  then show "B * N \<le> v \<and> v < B * N + N"
    using assms dividend_less_div_times[of N v] by (auto simp: add.commute)
next
  assume a: "B * N \<le> v \<and> v < B * N + N"
  then obtain r where v: "v = B * N + r" and r: "r < N"
    by (metis le_Suc_ex nat_add_left_cancel_less)
  show "v div N = B"
    using r by (simp add: v)
qed

lemma loop_block:
  fixes base N :: nat
  assumes cont: "\<And>ip. length ip = 4 \<Longrightarrow> Contains ipnet ip \<longleftrightarrow> base \<le> ip_val ip \<and> ip_val ip < base + N"
    and top: "base + N \<le> 2 ^ 32"
    and wrap: "base + N = 2 ^ 32 \<Longrightarrow> 0 < base"
  shows "length ip = 4 \<Longrightarrow> base \<le> ip_val ip \<Longrightarrow> ip_val ip < base + N \<Longrightarrow>
         d = base + N - ip_val ip \<Longrightarrow>
         \<exists>out. scanNetwork_loop ipnet ip sent = Some (sent @ out)
               \<and> map ip_val out = [ip_val ip ..< base + N]
               \<and> (\<forall>x\<in>set out. length x = 4)"
proof (induction d arbitrary: ip sent)
  case 0
  then show ?case by simp
next
  case (Suc d)
  let ?ip' = "incIP_loop 4 ip"
  note len = Suc.prems(1)
  have c: "Contains ipnet ip" using cont[OF len] Suc.prems(2,3) by simp
  have len': "length ?ip' = 4" by (rule incIP_4(2)[OF len])
  have val': "ip_val ?ip' = (ip_val ip + 1) mod 2 ^ 32" by (rule incIP_4(3)[OF len])
  have step: "scanNetwork_loop ipnet ip sent = scanNetwork_loop ipnet ?ip' (sent @ [ip])"
    by (subst scanNetwork_loop.simps) (simp add: c incIP_4(1)[OF len])
  show ?case
  proof (cases "ip_val ip + 1 < base + N")
    case True
    then have v: "ip_val ?ip' = ip_val ip + 1"
      using top val' by simp
    have "\<exists>out. scanNetwork_loop ipnet ?ip' (sent @ [ip]) = Some ((sent @ [ip]) @ out)
               \<and> map ip_val out = [ip_val ?ip' ..< base + N]
               \<and> (\<forall>x\<in>set out. length x = 4)"
      using True Suc.prems(2,4) by (intro Suc.IH len') (simp_all add: v)
    then obtain out where o: "scanNetwork_loop ipnet ?ip' (sent @ [ip]) = Some ((sent @ [ip]) @ out)"
      "map ip_val out = [ip_val ?ip' ..< base + N]" "\<forall>x\<in>set out. length x = 4"
      by blast
    have "map ip_val (ip # out) = [ip_val ip ..< base + N]"
      using o(2) Suc.prems(3) by (simp add: v upt_conv_Cons)
    moreover have "scanNetwork_loop ipnet ip sent = Some (sent @ ip # out)"
      using step o(1) by simp
    moreover have "\<forall>x\<in>set (ip # out). length x = 4"
      using o(3) len by simp
    ultimately show ?thesis by blast
  next
    case False
    then have e: "ip_val ip + 1 = base + N" using Suc.prems(3) by simp
    have "\<not> Contains ipnet ?ip'"
    proof (cases "base + N = 2 ^ 32")
      case True
      then have "ip_val ?ip' = 0" using val' e by simp
      moreover have "0 < base" by (rule wrap[OF True])
      ultimately show ?thesis using cont[OF len'] by simp
    next
      case False
      then have "base + N < 2 ^ 32" using top by simp
      then have "ip_val ?ip' = base + N" using val' e by simp
      then show ?thesis using cont[OF len'] by simp
    qed
    then have "scanNetwork_loop ipnet ?ip' (sent @ [ip]) = Some (sent @ [ip])"
      by (subst scanNetwork_loop.simps) simp
    then have "scanNetwork_loop ipnet ip sent = Some (sent @ [ip])"
      using step by simp
    moreover have "map ip_val [ip] = [ip_val ip ..< base + N]"
      using e by (simp add: upt_conv_Cons flip: e)
    ultimately show ?thesis using len by (intro exI[of _ "[ip]"]) simp
  qed
qed

text \<open>
  For a prefix length from 1 to 32 the loop is left, and the addresses it has sent are the
  \<open>2^(32-p)\<close> addresses of the block, from the network address to the broadcast address,
  each once and in ascending order.
\<close>

theorem scanNetwork_enum_block:
  assumes "length addr = 4" and "1 \<le> p" and "p \<le> 32"
    and "ParseCIDR4 addr p = Some ipnet"
    and "base = ip_val addr div 2 ^ (32 - p) * 2 ^ (32 - p)"
  shows "\<exists>out. scanNetwork_enum ipnet = Some out
               \<and> map ip_val out = [base ..< base + 2 ^ (32 - p)]
               \<and> (\<forall>x\<in>set out. length x = 4)
               \<and> ip_val (IP ipnet) = base"
proof -
  let ?N = "2 ^ (32 - p) :: nat"
  let ?B = "ip_val addr div ?N"
  let ?m = "CIDRMask_loop 4 p"
  have net: "ipnet = \<lparr>IP = map2 (AND) addr ?m, Mask = ?m\<rparr>"
    using ParseCIDR4_Some[OF assms(1,3)] assms(4) by simp
  have N0: "0 < ?N" by simp
  have base: "base = ?B * ?N" by (rule assms(5))
  have cont: "\<And>ip. length ip = 4 \<Longrightarrow>
                Contains ipnet ip \<longleftrightarrow> base \<le> ip_val ip \<and> ip_val ip < base + ?N"
    unfolding net base
    by (simp only: Contains_parsed[OF assms(1) _ assms(3)] in_block_iff[OF N0])
  have pw: "(2 :: nat) ^ 32 = 2 ^ p * ?N"
    using assms(3) by (simp flip: power_add)
  have "ip_val addr < 2 ^ p * ?N"
    unfolding pw[symmetric] by (rule ip_val_less[OF assms(1)])
  then have Bp: "?B < 2 ^ p"
    by (rule less_mult_imp_div_less)
  have "base + ?N = (?B + 1) * ?N"
    by (simp add: base)
  also have "\<dots> \<le> 2 ^ p * ?N"
    using Bp by (intro mult_le_mono1) simp
  also have "\<dots> = 2 ^ 32"
    by (rule pw[symmetric])
  finally have top: "base + ?N \<le> 2 ^ 32" .
  have wrap: "0 < base" if "base + ?N = 2 ^ 32"
  proof (rule ccontr)
    assume "\<not> 0 < base"
    then have e: "?N = 2 ^ 32" using that by simp
    have "1 < (2 :: nat)" by simp
    from power_inject_exp[OF this, of "32 - p" 32] e have "32 - p = 32" by blast
    then show False using assms(2) by simp
  qed
  have lnet: "length (IP ipnet) = 4"
    by (simp add: net assms(1) length_CIDRMask_loop)
  have vnet: "ip_val (IP ipnet) = base"
    using masked_val[of addr 4 p] assms(1,3) by (simp add: net base)
  obtain out where "scanNetwork_loop ipnet (IP ipnet) [] = Some ([] @ out)"
    "map ip_val out = [ip_val (IP ipnet) ..< base + ?N]" "\<forall>x\<in>set out. length x = 4"
    using loop_block[of ipnet base ?N "IP ipnet" "base + ?N - ip_val (IP ipnet)" "[]",
        OF cont top wrap lnet] vnet by auto
  then show ?thesis
    by (auto simp: scanNetwork_enum_def vnet)
qed

subsection \<open>The goroutines of \<open>scanNetwork\<close>\<close>

lemma loop_unfold_in:
  "Contains ipnet ip \<Longrightarrow>
   scanNetwork_loop ipnet ip sent =
     (case incIP ip of None \<Rightarrow> Some (sent @ [ip])
      | Some ip' \<Rightarrow> scanNetwork_loop ipnet ip' (sent @ [ip]))"
  by (subst scanNetwork_loop.simps) simp

lemma loop_unfold_out:
  "\<not> Contains ipnet ip \<Longrightarrow> scanNetwork_loop ipnet ip sent = Some sent"
  by (subst scanNetwork_loop.simps) simp

lemma mset_concat_map_update:
  "i < length ws \<Longrightarrow>
   mset (concat (map f (ws[i := w]))) + mset (f (ws ! i)) = mset (concat (map f ws)) + mset (f w)"
proof (induction ws arbitrary: i)
  case Nil
  then show ?case by simp
next
  case (Cons a ws)
  show ?case
  proof (cases i)
    case 0
    then show ?thesis by simp
  next
    case (Suc j)
    then have "j < length ws" using Cons.prems by simp
    from Cons.IH[OF this] show ?thesis
      by (simp add: Suc)
  qed
qed

lemma update_gain:
  "i < length ws \<Longrightarrow> f (ws ! i) = [] \<Longrightarrow>
   mset (concat (map f (ws[i := w]))) = mset (concat (map f ws)) + mset (f w)"
  using mset_concat_map_update[of i ws f w] by simp

lemma update_loss:
  "i < length ws \<Longrightarrow> f w = [] \<Longrightarrow>
   mset (concat (map f (ws[i := w]))) + mset (f (ws ! i)) = mset (concat (map f ws))"
  using mset_concat_map_update[of i ws f w] by simp

lemma Done_update:
  "w \<noteq> Done \<Longrightarrow> Done \<in> set (ws[i := w]) \<Longrightarrow> Done \<in> set ws"
  by (metis in_set_conv_nth length_list_update nth_list_update_eq nth_list_update_neq)

lemma main_step_inv:
  assumes "scan_inv ipnet n check s" and "main_step ipnet cap s = Some s'"
  shows "scan_inv ipnet n check s'"
proof (cases "main_at s")
  case (Loop ip)
  show ?thesis
  proof (cases "Contains ipnet ip")
    case True
    with assms(2) Loop have room: "length (ipChan s) < cap"
      and s': "s' = s\<lparr>ipChan := ipChan s @ [ip], hist_sent := hist_sent s @ [ip],
                       main_at := (case incIP ip of None \<Rightarrow> Close | Some ip' \<Rightarrow> Loop ip')\<rparr>"
      by (auto simp: main_step_def split: if_splits)
    show ?thesis
      using assms(1) Loop loop_unfold_in[OF True, of "hist_sent s"]
      by (cases "incIP ip") (auto simp: scan_inv_def s' split: if_splits)
  next
    case False
    with assms(2) Loop have s': "s' = s\<lparr>main_at := Close\<rparr>"
      by (auto simp: main_step_def)
    show ?thesis
      using assms(1) Loop loop_unfold_out[OF False, of "hist_sent s"]
      by (auto simp: scan_inv_def s' split: if_splits)
  qed
next
  case Close
  with assms(2) have s': "s' = s\<lparr>closed := True, main_at := Wait\<rparr>"
    by (auto simp: main_step_def)
  show ?thesis
    using assms(1) Close by (auto simp: scan_inv_def s' split: if_splits)
next
  case Wait
  with assms(2) have s': "s' = s\<lparr>main_at := Returned\<rparr>"
    and all: "list_all (\<lambda>w. w = Done) (workers_at s)"
    by (auto simp: main_step_def split: if_splits)
  show ?thesis
    using assms(1) Wait all by (auto simp: scan_inv_def s' split: if_splits)
next
  case Returned
  with assms(2) show ?thesis by (simp add: main_step_def)
qed

lemma worker_step_inv:
  assumes "scan_inv ipnet n check s" and "worker_step check i s = Some s'"
  shows "scan_inv ipnet n check s'"
proof -
  from assms(2) have i: "i < length (workers_at s)"
    by (auto simp: worker_step_def split: if_splits)
  show ?thesis
  proof (cases "workers_at s ! i")
    case Recv
    show ?thesis
    proof (cases "ipChan s")
      case Nil
      with assms(2) Recv i have cl: "closed s"
        and s': "s' = s\<lparr>workers_at := (workers_at s)[i := Done]\<rparr>"
        by (auto simp: worker_step_def split: if_splits)
      have h: "mset (concat (map held ((workers_at s)[i := Done])))
                 = mset (concat (map held (workers_at s)))"
        using update_gain[OF i, of held Done] Recv by simp
      have a: "mset (concat (map to_append ((workers_at s)[i := Done])))
                 = mset (concat (map to_append (workers_at s)))"
        using update_gain[OF i, of to_append Done] Recv by simp
      have m: "main_at s \<noteq> Returned"
        using assms(1) i Recv by (auto simp: scan_inv_def list_all_length)
      show ?thesis
        using assms(1) cl Nil m
        by (cases "main_at s") (auto simp: scan_inv_def s' h a split: if_splits)
    next
      case (Cons ip rest)
      with assms(2) Recv i
      have s': "s' = s\<lparr>ipChan := rest, workers_at := (workers_at s)[i := Check ip]\<rparr>"
        by (auto simp: worker_step_def)
      have h: "mset (concat (map held ((workers_at s)[i := Check ip])))
                 = mset (concat (map held (workers_at s))) + {#ip#}"
        using update_gain[OF i, of held "Check ip"] Recv by simp
      have a: "mset (concat (map to_append ((workers_at s)[i := Check ip])))
                 = mset (concat (map to_append (workers_at s)))"
        using update_gain[OF i, of to_append "Check ip"] Recv by simp
      have nd: "Done \<notin> set (workers_at s)"
        using assms(1) Cons by (auto simp: scan_inv_def split: if_splits)
      then have nd': "Done \<notin> set ((workers_at s)[i := Check ip])"
        using Done_update[of "Check ip" "workers_at s" i] by auto
      have m: "main_at s \<noteq> Returned"
        using assms(1) i Recv by (auto simp: scan_inv_def list_all_length)
      show ?thesis
        using assms(1) Cons nd nd' m
        by (cases "main_at s") (auto simp: scan_inv_def s' h a)
    qed
  next
    case (Check ip)
    obtain found msg where c: "check (IP_String ip) = (found, msg)"
      by (cases "check (IP_String ip)")
    let ?w = "if found then Append ip else Recv"
    from assms(2) Check i c
    have s': "s' = s\<lparr>hist_probed := hist_probed s @ [IP_String ip], stdout := stdout s @ msg,
                      workers_at := (workers_at s)[i := ?w]\<rparr>"
      by (auto simp: worker_step_def)
    have h: "mset (concat (map held ((workers_at s)[i := ?w]))) + {#ip#}
               = mset (concat (map held (workers_at s)))"
      using update_loss[OF i, of held ?w] Check by simp
    have a: "mset (concat (map to_append ((workers_at s)[i := ?w])))
               = mset (concat (map to_append (workers_at s))) + (if found then {#ip#} else {#})"
      using update_gain[OF i, of to_append ?w] Check by simp
    have d: "Done \<in> set ((workers_at s)[i := ?w]) \<Longrightarrow> Done \<in> set (workers_at s)"
      by (rule Done_update[of ?w]) simp
    have m: "main_at s \<noteq> Returned"
      using assms(1) i Check by (auto simp: scan_inv_def list_all_length)
    have I1: "image_mset IP_String (mset (hist_sent s'))
          = mset (hist_probed s')
            + image_mset IP_String
                (mset (ipChan s') + mset (concat (map held (workers_at s'))))"
      using assms(1) h[symmetric] by (simp add: scan_inv_def s')
    have I2: "mset (printers s')
          + image_mset IP_String (mset (concat (map to_append (workers_at s'))))
          = filter_mset (\<lambda>a. fst (check a)) (mset (hist_probed s'))"
      using assms(1) a c by (simp add: scan_inv_def s')
    show ?thesis
      unfolding scan_inv_def
    proof (intro conjI)
      show "length (workers_at s') = n" using assms(1) by (simp add: scan_inv_def s')
      show "image_mset IP_String (mset (hist_sent s'))
          = mset (hist_probed s')
            + image_mset IP_String
                (mset (ipChan s') + mset (concat (map held (workers_at s'))))" by (rule I1)
      show "mset (printers s')
          + image_mset IP_String (mset (concat (map to_append (workers_at s'))))
          = filter_mset (\<lambda>a. fst (check a)) (mset (hist_probed s'))" by (rule I2)
      show "case main_at s' of
            Loop ip \<Rightarrow>
              scanNetwork_loop ipnet ip (hist_sent s') = scanNetwork_enum ipnet \<and> \<not> closed s'
          | Close \<Rightarrow> scanNetwork_enum ipnet = Some (hist_sent s') \<and> \<not> closed s'
          | Wait \<Rightarrow> scanNetwork_enum ipnet = Some (hist_sent s') \<and> closed s'
          | Returned \<Rightarrow>
              scanNetwork_enum ipnet = Some (hist_sent s') \<and> closed s'
              \<and> list_all (\<lambda>w. w = Done) (workers_at s')"
        using assms(1) m by (cases "main_at s") (auto simp: scan_inv_def s')
      show "if Done \<in> set (workers_at s') then closed s' \<and> ipChan s' = [] else True"
        using assms(1) d by (auto simp: scan_inv_def s' split: if_splits)
    qed
  next
    case (Append ip)
    from assms(2) Append i
    have s': "s' = s\<lparr>printers := printers s @ [IP_String ip],
                      workers_at := (workers_at s)[i := Recv]\<rparr>"
      by (auto simp: worker_step_def)
    have h: "mset (concat (map held ((workers_at s)[i := Recv])))
               = mset (concat (map held (workers_at s)))"
      using update_gain[OF i, of held Recv] Append by simp
    have a: "mset (concat (map to_append ((workers_at s)[i := Recv]))) + {#ip#}
               = mset (concat (map to_append (workers_at s)))"
      using update_loss[OF i, of to_append Recv] Append by simp
    have d: "Done \<in> set ((workers_at s)[i := Recv]) \<Longrightarrow> Done \<in> set (workers_at s)"
      by (rule Done_update[of Recv]) simp
    have m: "main_at s \<noteq> Returned"
      using assms(1) i Append by (auto simp: scan_inv_def list_all_length)
    have I2: "mset (printers s')
          + image_mset IP_String (mset (concat (map to_append (workers_at s'))))
          = filter_mset (\<lambda>a. fst (check a)) (mset (hist_probed s'))"
      using assms(1) a[symmetric] by (simp add: scan_inv_def s')
    show ?thesis
      unfolding scan_inv_def
    proof (intro conjI)
      show "length (workers_at s') = n" using assms(1) by (simp add: scan_inv_def s')
      show "image_mset IP_String (mset (hist_sent s'))
          = mset (hist_probed s')
            + image_mset IP_String
                (mset (ipChan s') + mset (concat (map held (workers_at s'))))"
        using assms(1) by (simp add: scan_inv_def s' h)
      show "mset (printers s')
          + image_mset IP_String (mset (concat (map to_append (workers_at s'))))
          = filter_mset (\<lambda>a. fst (check a)) (mset (hist_probed s'))" by (rule I2)
      show "case main_at s' of
            Loop ip \<Rightarrow>
              scanNetwork_loop ipnet ip (hist_sent s') = scanNetwork_enum ipnet \<and> \<not> closed s'
          | Close \<Rightarrow> scanNetwork_enum ipnet = Some (hist_sent s') \<and> \<not> closed s'
          | Wait \<Rightarrow> scanNetwork_enum ipnet = Some (hist_sent s') \<and> closed s'
          | Returned \<Rightarrow>
              scanNetwork_enum ipnet = Some (hist_sent s') \<and> closed s'
              \<and> list_all (\<lambda>w. w = Done) (workers_at s')"
        using assms(1) m by (cases "main_at s") (auto simp: scan_inv_def s')
      show "if Done \<in> set (workers_at s') then closed s' \<and> ipChan s' = [] else True"
        using assms(1) d by (auto simp: scan_inv_def s' split: if_splits)
    qed
  next
    case Done
    with assms(2) i show ?thesis by (simp add: worker_step_def)
  qed
qed

lemma step_inv:
  "scan_inv ipnet n check s \<Longrightarrow> step ipnet cap check a s = Some s' \<Longrightarrow> scan_inv ipnet n check s'"
  by (cases a) (auto simp: step_def intro: main_step_inv worker_step_inv)

lemma run_inv:
  "scan_inv ipnet n check s \<Longrightarrow> run ipnet cap check sched s = Some s' \<Longrightarrow> scan_inv ipnet n check s'"
proof (induction sched arbitrary: s)
  case Nil
  then show ?case by simp
next
  case (Cons a sched)
  then show ?case
    by (auto split: option.splits dest: step_inv)
qed

lemma scan_init_inv: "scan_inv ipnet n check (scan_init ipnet n)"
  by (simp add: scan_inv_def scan_init_def scanNetwork_enum_def)

subsection \<open>What \<open>scanNetwork\<close> returns, and that it returns\<close>

lemma all_Done_empty:
  "list_all (\<lambda>w. w = Done) ws \<Longrightarrow> concat (map held ws) = [] \<and> concat (map to_append ws) = []"
  by (induction ws) auto

lemma scan_final:
  assumes "scan_inv ipnet n check s" and "main_at s = Returned" and "1 \<le> n"
  shows "scanNetwork_enum ipnet = Some (hist_sent s)
       \<and> mset (hist_probed s) = image_mset IP_String (mset (hist_sent s))
       \<and> mset (printers s)
           = filter_mset (\<lambda>a. fst (check a)) (image_mset IP_String (mset (hist_sent s)))"
proof -
  from assms(1,2) have all: "list_all (\<lambda>w. w = Done) (workers_at s)"
    and e: "scanNetwork_enum ipnet = Some (hist_sent s)"
    and len: "length (workers_at s) = n"
    by (auto simp: scan_inv_def)
  from len assms(3) have "workers_at s \<noteq> []" by auto
  with all have "Done \<in> set (workers_at s)"
    by (cases "workers_at s") auto
  with assms(1) have ch: "ipChan s = []"
    by (auto simp: scan_inv_def split: if_splits)
  from assms(1) ch all_Done_empty[OF all]
  have p: "mset (hist_probed s) = image_mset IP_String (mset (hist_sent s))"
    and q: "mset (printers s) = filter_mset (\<lambda>a. fst (check a)) (mset (hist_probed s))"
    by (auto simp: scan_inv_def)
  from e p q show ?thesis by simp
qed

lemma loop_prefix:
  assumes "scanNetwork_loop ipnet ip sent = Some E"
  shows "\<exists>suf. E = sent @ suf"
proof (rule scanNetwork_loop.raw_induct[where P = "\<lambda>ipnet ip sent E. \<exists>suf. E = sent @ suf",
        OF _ assms])
  fix loop ipnet ip sent E
  assume IH: "\<And>ipnet ip sent E. loop ipnet ip sent = Some E \<Longrightarrow> \<exists>suf. E = sent @ suf"
    and body: "(if Contains ipnet ip then
                  (case incIP ip of None \<Rightarrow> Some (sent @ [ip])
                   | Some ip' \<Rightarrow> loop ipnet ip' (sent @ [ip]))
                else Some sent) = Some E"
  show "\<exists>suf. E = sent @ suf"
  proof (cases "Contains ipnet ip")
    case False
    with body show ?thesis by simp
  next
    case True
    show ?thesis
    proof (cases "incIP ip")
      case None
      with body True show ?thesis by auto
    next
      case (Some ip')
      with body True have "loop ipnet ip' (sent @ [ip]) = Some E" by simp
      from IH[OF this] show ?thesis by auto
    qed
  qed
qed

lemma loop_in_longer:
  assumes "scanNetwork_loop ipnet ip sent = Some E" and "Contains ipnet ip"
  shows "length sent < length E"
proof (cases "incIP ip")
  case None
  with assms loop_unfold_in[OF assms(2), of sent] show ?thesis by auto
next
  case (Some ip')
  with assms loop_unfold_in[OF assms(2), of sent]
  have "scanNetwork_loop ipnet ip' (sent @ [ip]) = Some E" by simp
  from loop_prefix[OF this] show ?thesis by auto
qed

lemma weight_update:
  "i < length ws \<Longrightarrow>
   sum_list (map worker_weight (ws[i := w])) + worker_weight (ws ! i)
   = sum_list (map worker_weight ws) + worker_weight w"
proof (induction ws arbitrary: i)
  case Nil
  then show ?case by simp
next
  case (Cons a ws)
  show ?case
  proof (cases i)
    case 0
    then show ?thesis by simp
  next
    case (Suc j)
    then have "j < length ws" using Cons.prems by simp
    from Cons.IH[OF this] show ?thesis by (simp add: Suc)
  qed
qed

lemma main_step_decreases:
  assumes "scan_inv ipnet n check s" and "scanNetwork_enum ipnet = Some E"
    and "main_step ipnet cap s = Some s'"
  shows "steps_left E s' < steps_left E s"
proof (cases "main_at s")
  case (Loop ip)
  show ?thesis
  proof (cases "Contains ipnet ip")
    case True
    with assms(3) Loop
    have s': "s' = s\<lparr>ipChan := ipChan s @ [ip], hist_sent := hist_sent s @ [ip],
                       main_at := (case incIP ip of None \<Rightarrow> Close | Some ip' \<Rightarrow> Loop ip')\<rparr>"
      by (auto simp: main_step_def split: if_splits)
    have "scanNetwork_loop ipnet ip (hist_sent s) = Some E"
      using assms(1,2) Loop by (simp add: scan_inv_def)
    from loop_in_longer[OF this True] have lt: "length (hist_sent s) < length E" .
    have mw: "main_weight (case incIP ip of None \<Rightarrow> Close | Some ip' \<Rightarrow> Loop ip') \<le> 3"
      by (cases "incIP ip") simp_all
    show ?thesis
      using lt mw Loop by (simp add: steps_left_def s')
  next
    case False
    with assms(3) Loop have "s' = s\<lparr>main_at := Close\<rparr>"
      by (auto simp: main_step_def)
    then show ?thesis using Loop by (simp add: steps_left_def)
  qed
next
  case Close
  with assms(3) have "s' = s\<lparr>closed := True, main_at := Wait\<rparr>"
    by (auto simp: main_step_def)
  then show ?thesis using Close by (simp add: steps_left_def)
next
  case Wait
  with assms(3) have "s' = s\<lparr>main_at := Returned\<rparr>"
    by (auto simp: main_step_def split: if_splits)
  then show ?thesis using Wait by (simp add: steps_left_def)
next
  case Returned
  with assms(3) show ?thesis by (simp add: main_step_def)
qed

lemma worker_step_decreases:
  assumes "worker_step check i s = Some s'"
  shows "steps_left E s' < steps_left E s"
proof -
  from assms have i: "i < length (workers_at s)"
    by (auto simp: worker_step_def split: if_splits)
  show ?thesis
  proof (cases "workers_at s ! i")
    case Recv
    show ?thesis
    proof (cases "ipChan s")
      case Nil
      with assms Recv i have "s' = s\<lparr>workers_at := (workers_at s)[i := Done]\<rparr>"
        by (auto simp: worker_step_def split: if_splits)
      then show ?thesis
        using weight_update[OF i, of Done] Recv by (simp add: steps_left_def)
    next
      case (Cons ip rest)
      with assms Recv i
      have "s' = s\<lparr>ipChan := rest, workers_at := (workers_at s)[i := Check ip]\<rparr>"
        by (auto simp: worker_step_def)
      then show ?thesis
        using weight_update[OF i, of "Check ip"] Recv Cons by (simp add: steps_left_def)
    qed
  next
    case (Check ip)
    obtain found msg where c: "check (IP_String ip) = (found, msg)"
      by (cases "check (IP_String ip)")
    from assms Check i c
    have "s' = s\<lparr>hist_probed := hist_probed s @ [IP_String ip], stdout := stdout s @ msg,
                   workers_at := (workers_at s)[i := (if found then Append ip else Recv)]\<rparr>"
      by (auto simp: worker_step_def)
    then show ?thesis
      using weight_update[OF i, of "if found then Append ip else Recv"] Check
      by (simp add: steps_left_def split: if_splits)
  next
    case (Append ip)
    with assms i
    have "s' = s\<lparr>printers := printers s @ [IP_String ip],
                   workers_at := (workers_at s)[i := Recv]\<rparr>"
      by (auto simp: worker_step_def)
    then show ?thesis
      using weight_update[OF i, of Recv] Append by (simp add: steps_left_def)
  next
    case Done
    with assms i show ?thesis by (simp add: worker_step_def)
  qed
qed

lemma step_decreases:
  "scan_inv ipnet n check s \<Longrightarrow> scanNetwork_enum ipnet = Some E \<Longrightarrow>
   step ipnet cap check a s = Some s' \<Longrightarrow> steps_left E s' < steps_left E s"
  by (cases a) (auto simp: step_def intro: main_step_decreases worker_step_decreases)

lemma worker_can_move:
  assumes "i < length (workers_at s)" and "workers_at s ! i \<noteq> Done"
    and "ipChan s \<noteq> [] \<or> closed s \<or> workers_at s ! i \<noteq> Recv"
  shows "\<exists>s'. worker_step check i s = Some s'"
proof (cases "workers_at s ! i")
  case Recv
  with assms show ?thesis
    by (cases "ipChan s") (auto simp: worker_step_def)
next
  case (Check ip)
  with assms(1) show ?thesis
    by (cases "check (IP_String ip)") (auto simp: worker_step_def)
next
  case (Append ip)
  with assms(1) show ?thesis by (auto simp: worker_step_def)
next
  case Done
  with assms(2) show ?thesis by simp
qed

lemma can_move:
  assumes "scan_inv ipnet n check s" and "1 \<le> n" and "1 \<le> cap" and "main_at s \<noteq> Returned"
  shows "\<exists>a s'. step ipnet cap check a s = Some s'"
proof -
  from assms(1) have len: "length (workers_at s) = n" by (simp add: scan_inv_def)
  show ?thesis
  proof (cases "main_at s")
    case (Loop ip)
    show ?thesis
    proof (cases "Contains ipnet ip \<and> \<not> length (ipChan s) < cap")
      case False
      then have "\<exists>s'. main_step ipnet cap s = Some s'"
        using Loop by (auto simp: main_step_def)
      then show ?thesis by (auto simp: step_def intro: exI[of _ Main])
    next
      case True
      then have ne: "ipChan s \<noteq> []" using assms(3) by auto
      have "\<not> closed s" using assms(1) Loop by (simp add: scan_inv_def)
      then have "Done \<notin> set (workers_at s)"
        using assms(1) by (auto simp: scan_inv_def split: if_splits)
      moreover have 0: "0 < length (workers_at s)" using len assms(2) by simp
      ultimately have "workers_at s ! 0 \<noteq> Done" by (metis nth_mem)
      from worker_can_move[OF 0 this, of check] ne
      obtain s' where "worker_step check 0 s = Some s'" by auto
      then show ?thesis by (auto simp: step_def intro: exI[of _ "Worker 0"])
    qed
  next
    case Close
    then have "\<exists>s'. main_step ipnet cap s = Some s'" by (simp add: main_step_def)
    then show ?thesis by (auto simp: step_def intro: exI[of _ Main])
  next
    case Wait
    show ?thesis
    proof (cases "list_all (\<lambda>w. w = Done) (workers_at s)")
      case True
      then have "\<exists>s'. main_step ipnet cap s = Some s'" using Wait by (simp add: main_step_def)
      then show ?thesis by (auto simp: step_def intro: exI[of _ Main])
    next
      case False
      then obtain i where i: "i < length (workers_at s)" and nd: "workers_at s ! i \<noteq> Done"
        by (auto simp: list_all_length)
      have "closed s" using assms(1) Wait by (simp add: scan_inv_def)
      from worker_can_move[OF i nd, of check] this
      obtain s' where "worker_step check i s = Some s'" by auto
      then show ?thesis by (auto simp: step_def intro: exI[of _ "Worker i"])
    qed
  next
    case Returned
    with assms(4) show ?thesis by simp
  qed
qed

lemma run_append:
  "run ipnet cap check (xs @ ys) s =
     (case run ipnet cap check xs s of None \<Rightarrow> None | Some s' \<Rightarrow> run ipnet cap check ys s')"
  by (induction xs arbitrary: s) (auto split: option.splits)

lemma can_complete:
  assumes "scanNetwork_enum ipnet = Some E" and "1 \<le> n" and "1 \<le> cap"
  shows "scan_inv ipnet n check s \<Longrightarrow> k = steps_left E s \<Longrightarrow>
         \<exists>sched s'. run ipnet cap check sched s = Some s' \<and> main_at s' = Returned"
proof (induction k arbitrary: s rule: less_induct)
  case (less k)
  show ?case
  proof (cases "main_at s = Returned")
    case True
    then have "run ipnet cap check [] s = Some s \<and> main_at s = Returned" by simp
    then show ?thesis by blast
  next
    case False
    from can_move[OF less.prems(1) assms(2,3) False]
    obtain a s1 where st: "step ipnet cap check a s = Some s1" by blast
    have inv1: "scan_inv ipnet n check s1" by (rule step_inv[OF less.prems(1) st])
    have "steps_left E s1 < k"
      using step_decreases[OF less.prems(1) assms(1) st] less.prems(2) by simp
    from less.IH[OF this inv1 refl]
    obtain sched s' where "run ipnet cap check sched s1 = Some s'" "main_at s' = Returned"
      by blast
    then have "run ipnet cap check (a # sched) s = Some s' \<and> main_at s' = Returned"
      using st by simp
    then show ?thesis by blast
  qed
qed

lemma run_bounded:
  assumes "scanNetwork_enum ipnet = Some E"
  shows "scan_inv ipnet n check s \<Longrightarrow> run ipnet cap check sched s = Some s' \<Longrightarrow>
         length sched + steps_left E s' \<le> steps_left E s"
proof (induction sched arbitrary: s)
  case Nil
  then show ?case by simp
next
  case (Cons a sched)
  from Cons.prems(2) obtain s1 where st: "step ipnet cap check a s = Some s1"
    and r: "run ipnet cap check sched s1 = Some s'"
    by (auto split: option.splits)
  have "length sched + steps_left E s' \<le> steps_left E s1"
    by (rule Cons.IH[OF step_inv[OF Cons.prems(1) st] r])
  moreover have "steps_left E s1 < steps_left E s"
    by (rule step_decreases[OF Cons.prems(1) assms st])
  ultimately show ?case by simp
qed

text \<open>
  For a prefix length from 1 to 32 and at least one worker: some schedule takes
  \<open>scanNetwork\<close> to its return, no execution has more than \<open>4 * 2^(32-p) + W + 3\<close> steps,
  and whenever \<open>scanNetwork\<close> returns, \<open>checkSNMP\<close> has been called once for each
  address of the block and \<open>printers\<close> holds exactly those it accepted.
\<close>

theorem scanNetwork_exactly_once:
  assumes "length addr = 4" and "1 \<le> p" and "p \<le> 32"
    and "ParseCIDR4 addr p = Some ipnet" and "1 \<le> W"
    and "base = ip_val addr div 2 ^ (32 - p) * 2 ^ (32 - p)"
  shows "(\<exists>sched s. scanNetwork (Inr ipnet) check (int W) sched = Some (Returns s))
       \<and> (\<forall>sched s. scanNetwork (Inr ipnet) check (int W) sched = Some (Returns s) \<longrightarrow>
             length sched \<le> 4 * 2 ^ (32 - p) + W + 3
             \<and> (\<exists>E. map ip_val E = [base ..< base + 2 ^ (32 - p)]
                    \<and> mset (hist_probed s) = image_mset IP_String (mset E)
                    \<and> mset (printers s)
                        = filter_mset (\<lambda>a. fst (check a)) (image_mset IP_String (mset E))))"
proof -
  obtain E where E: "scanNetwork_enum ipnet = Some E"
    and vals: "map ip_val E = [base ..< base + 2 ^ (32 - p)]"
    using scanNetwork_enum_block[OF assms(1,2,3,4,6)] by blast
  have lenE: "length E = 2 ^ (32 - p)"
    using arg_cong[OF vals, of length] by simp
  let ?init = "scan_init ipnet W"
  have inv0: "scan_inv ipnet W check ?init" by (rule scan_init_inv)
  have left0: "steps_left E ?init = 4 * 2 ^ (32 - p) + W + 3"
    by (simp add: steps_left_def scan_init_def lenE sum_list_replicate)
  have ex: "\<exists>sched s. scanNetwork (Inr ipnet) check (int W) sched = Some (Returns s)"
  proof -
    obtain sched s where "run ipnet W check sched ?init = Some s" "main_at s = Returned"
      using can_complete[OF E assms(5) assms(5) inv0 refl] by blast
    then have "scanNetwork (Inr ipnet) check (int W) sched = Some (Returns s)"
      by (simp add: scanNetwork_def)
    then show ?thesis by blast
  qed
  have all: "length sched \<le> 4 * 2 ^ (32 - p) + W + 3
             \<and> (\<exists>E. map ip_val E = [base ..< base + 2 ^ (32 - p)]
                    \<and> mset (hist_probed s) = image_mset IP_String (mset E)
                    \<and> mset (printers s)
                        = filter_mset (\<lambda>a. fst (check a)) (image_mset IP_String (mset E)))"
    if r: "scanNetwork (Inr ipnet) check (int W) sched = Some (Returns s)" for sched s
  proof -
    from r have run: "run ipnet W check sched ?init = Some s" and ret: "main_at s = Returned"
      by (auto simp: scanNetwork_def split: option.splits if_splits)
    have inv: "scan_inv ipnet W check s" by (rule run_inv[OF inv0 run])
    from scan_final[OF inv ret assms(5)] E
    have "hist_sent s = E"
      and "mset (hist_probed s) = image_mset IP_String (mset (hist_sent s))"
      and "mset (printers s)
           = filter_mset (\<lambda>a. fst (check a)) (image_mset IP_String (mset (hist_sent s)))"
      by simp_all
    moreover have "length sched \<le> 4 * 2 ^ (32 - p) + W + 3"
      using run_bounded[OF E inv0 run] left0 by simp
    ultimately show ?thesis using vals by auto
  qed
  from ex all show ?thesis by blast
qed

text \<open>
  C2. On \<open>0.0.0.0/0\<close> no schedule takes \<open>scanNetwork\<close> to its return, whatever the number
  of workers: the main goroutine never leaves the enumeration loop, so no collection of
  printers is ever returned.
\<close>

theorem slash0_scan_never_returns:
  "scanNetwork (Inr \<lparr>IP = [0, 0, 0, 0], Mask = [0, 0, 0, 0]\<rparr>) check (int W) sched = None"
proof -
  let ?net = "\<lparr>IP = [0, 0, 0, 0], Mask = [0, 0, 0, 0]\<rparr>"
  have none: "scanNetwork_enum ?net = None"
    by (simp add: scanNetwork_enum_def loop_slash0_None)
  show ?thesis
  proof (cases "run ?net W check sched (scan_init ?net W)")
    case None
    then show ?thesis by (simp add: scanNetwork_def)
  next
    case (Some s)
    have "scan_inv ?net W check s" by (rule run_inv[OF scan_init_inv Some])
    then have "main_at s \<noteq> Returned"
      using none by (auto simp: scan_inv_def)
    then show ?thesis using Some by (simp add: scanNetwork_def)
  qed
qed

text \<open>
  On \<open>0.0.0.0/0\<close> the main goroutine is in its enumeration loop in every state an
  execution reaches, and with at least one worker some goroutine can always move: the
  scan goes on for ever.
\<close>

lemma slash0_in_loop:
  assumes "run \<lparr>IP = [0, 0, 0, 0], Mask = [0, 0, 0, 0]\<rparr> W check sched
             (scan_init \<lparr>IP = [0, 0, 0, 0], Mask = [0, 0, 0, 0]\<rparr> W) = Some s"
  shows "\<exists>ip. main_at s = Loop ip"
proof -
  let ?net = "\<lparr>IP = [0, 0, 0, 0], Mask = [0, 0, 0, 0]\<rparr>"
  have none: "scanNetwork_enum ?net = None"
    by (simp add: scanNetwork_enum_def loop_slash0_None)
  have "scan_inv ?net W check s" by (rule run_inv[OF scan_init_inv assms])
  with none show ?thesis
    by (cases "main_at s") (auto simp: scan_inv_def)
qed

lemma slash0_goes_on:
  assumes "run \<lparr>IP = [0, 0, 0, 0], Mask = [0, 0, 0, 0]\<rparr> W check sched
             (scan_init \<lparr>IP = [0, 0, 0, 0], Mask = [0, 0, 0, 0]\<rparr> W) = Some s"
    and "1 \<le> W"
  shows "\<exists>a s'. step \<lparr>IP = [0, 0, 0, 0], Mask = [0, 0, 0, 0]\<rparr> W check a s = Some s'"
proof -
  let ?net = "\<lparr>IP = [0, 0, 0, 0], Mask = [0, 0, 0, 0]\<rparr>"
  have inv: "scan_inv ?net W check s" by (rule run_inv[OF scan_init_inv assms(1)])
  from slash0_in_loop[OF assms(1)] have "main_at s \<noteq> Returned" by auto
  from can_move[OF inv assms(2) assms(2) this] show ?thesis .
qed

subsection \<open>The text of an address, and a block of IPv6 addresses\<close>

lemma IP_String_v6_unspecified:
  "IP_String [0, 0, 0, 0, 0, 0, 0, 0, 0, 0, 0, 0, 0, 0, 0, 0] = ''::''"
  by (simp add: IP_String_def To4_def v4InV6Prefix_def string6_def longest_zero_run_def
      zero_run_end_def join_fields_def v6u16_def v6_fields_def appendHex.simps hexDigit_def)

lemma IP_String_v6_example:
  "IP_String [0x20, 0x01, 0x0d, 0xb8, 0, 0, 0, 0, 0, 0, 0, 0, 0, 0, 0, 1] = ''2001:db8::1''"
  by (simp add: IP_String_def To4_def v4InV6Prefix_def string6_def longest_zero_run_def
      zero_run_end_def join_fields_def v6u16_def v6_fields_def appendHex.simps hexDigit_def)

lemma IP_String_v4_mapped:
  "IP_String [0, 0, 0, 0, 0, 0, 0, 0, 0, 0, 0xff, 0xff, 10, 0, 0, 7] = ''10.0.0.7''"
  by (simp add: IP_String_def To4_def v4InV6Prefix_def digits.simps digit_char_def)

text \<open>
  On a block of IPv6 addresses \<open>incIP\<close> answers nil at once: the enumeration sends the
  first address of the block and ends.
\<close>

lemma scanNetwork_enum_v6:
  "scanNetwork_enum
     \<lparr>IP = [0x20, 0x01, 0x0d, 0xb8, 0, 0, 0, 0, 0, 0, 0, 0, 0, 0, 0, 0],
      Mask = [0xff, 0xff, 0xff, 0xff, 0xff, 0xff, 0xff, 0xff, 0xff, 0xff, 0xff, 0xff, 0, 0, 0, 0]\<rparr>
   = Some [[0x20, 0x01, 0x0d, 0xb8, 0, 0, 0, 0, 0, 0, 0, 0, 0, 0, 0, 0]]"
  by (simp add: scanNetwork_enum_def scanNetwork_loop.simps Contains_def
      networkNumberAndMask_def To4_def v4InV6Prefix_def incIP_def upt_rec)

subsection \<open>Fatal and non-fatal failures\<close>

lemma example_net_in:
  "Contains \<lparr>IP = [10, 0, 0, 7], Mask = [255, 255, 255, 255]\<rparr> [10, 0, 0, 7]"
  by (simp add: Contains_def networkNumberAndMask_def To4_def upt4)

lemma example_net_out:
  "\<not> Contains \<lparr>IP = [10, 0, 0, 7], Mask = [255, 255, 255, 255]\<rparr> [10, 0, 0, 8]"
  by (simp add: Contains_def networkNumberAndMask_def To4_def upt4)

lemma example_parse:
  "ParseCIDR4 [10, 0, 0, 7] 32 = Some \<lparr>IP = [10, 0, 0, 7], Mask = [255, 255, 255, 255]\<rparr>"
  by (simp add: ParseCIDR4_def CIDRMask_def four)

lemma example_next: "incIP [10, 0, 0, 7] = Some [10, 0, 0, 8]"
  by (simp add: incIP_def To4_def incIP_loop_4)

lemma example_text: "IP_String [10, 0, 0, 7] = ''10.0.0.7''"
  by (simp add: IP_String_def To4_def digits.simps digit_char_def)

lemma example_check:
  "checkSNMP (probe_hosts example_world ip community) ip
   = (True, [CHR 0xF0, CHR 0x9F, CHR 0x8E, CHR 0xAF] @ '' Found printer: '' @ ip @ '' ''
            @ [CHR 0xE2, CHR 0x86, CHR 0x92] @ '' (unnamed)\<newline>'')"
  by (simp add: checkSNMP_def example_world_def)

lemma example_run:
  "run \<lparr>IP = [10, 0, 0, 7], Mask = [255, 255, 255, 255]\<rparr> 1
     (\<lambda>ip. checkSNMP (probe_hosts example_world ip ''public'') ip) example_schedule
     (scan_init \<lparr>IP = [10, 0, 0, 7], Mask = [255, 255, 255, 255]\<rparr> 1)
   = Some \<lparr>main_at = Returned, workers_at = [Done], ipChan = [], closed = True,
           printers = [''10.0.0.7''],
           stdout = [CHR 0xF0, CHR 0x9F, CHR 0x8E, CHR 0xAF] @ '' Found printer: 10.0.0.7 ''
                    @ [CHR 0xE2, CHR 0x86, CHR 0x92] @ '' (unnamed)\<newline>'',
           hist_sent = [[10, 0, 0, 7]], hist_probed = [''10.0.0.7'']\<rparr>"
  by (simp add: example_schedule_def scan_init_def step_def main_step_def worker_step_def
      example_net_in example_net_out example_next example_text example_check)

lemma pollPrinter_connect_failure:
  "connect_err dev = Some e \<Longrightarrow>
   pollPrinter q dev
   = [CHR 0xE2, CHR 0x9D, CHR 0x8C] @ '' Failed to connect to '' @ q @ '': '' @ e @ ''\<newline>''"
  by (simp add: pollPrinter_def)

lemma pollPrinter_get_failure:
  "connect_err dev = None \<Longrightarrow> get_result dev = Inl e \<Longrightarrow>
   pollPrinter q dev
   = [CHR 0xE2, CHR 0x9D, CHR 0x8C] @ '' SNMP Get error for '' @ q @ '': '' @ e @ ''\<newline>''"
  by (simp add: pollPrinter_def)

lemma main_run_returns:
  assumes "ParseCIDR world cidr = Inr ipnet" and "0 \<le> workers"
    and "run ipnet (nat workers) (\<lambda>ip. checkSNMP (probe_hosts world ip community) ip) sched
           (scan_init ipnet (nat workers)) = Some s"
    and "main_at s = Returned"
  shows "main_run world cidr community workers sched
         = Some \<lparr>exit_status = 0,
                 out_text = scan_banner cidr workers @ stdout s
                   @ report_printers (\<lambda>ip. poll_devices world ip community) (printers s),
                 probes = hist_probed s\<rparr>"
  using assms by (simp add: main_run_def scanNetwork_def)

lemma main_run_status:
  assumes "ParseCIDR world cidr = Inr ipnet" and "0 \<le> workers"
    and "main_run world cidr community workers sched = Some r"
  shows "exit_status r = 0"
  using assms
  by (auto simp: main_run_def scanNetwork_def split: option.splits if_splits scan_outcome.splits)

lemma main_run_completes:
  assumes a1: "ParseCIDR world cidr = Inr ipnet" and a2: "1 \<le> workers"
    and a3: "length addr = 4" and a4: "1 \<le> p" and a5: "p \<le> 32"
    and a6: "ParseCIDR4 addr p = Some ipnet"
    and r0: "run ipnet (nat workers) (\<lambda>ip. checkSNMP (probe_hosts world ip community) ip)
              sched0 (scan_init ipnet (nat workers)) = Some s0"
  shows "length sched0 \<le> 4 * 2 ^ (32 - p) + nat workers + 3"
    and "\<exists>sched1 r. main_run world cidr community workers (sched0 @ sched1) = Some r
                    \<and> exit_status r = 0"
proof -
  let ?check = "\<lambda>ip. checkSNMP (probe_hosts world ip community) ip"
  obtain E where E: "scanNetwork_enum ipnet = Some E"
    and vals: "map ip_val E
               = [ip_val addr div 2 ^ (32 - p) * 2 ^ (32 - p)
                  ..< ip_val addr div 2 ^ (32 - p) * 2 ^ (32 - p) + 2 ^ (32 - p)]"
    using scanNetwork_enum_block[OF a3 a4 a5 a6 refl] by blast
  have lenE: "length E = 2 ^ (32 - p)"
    using arg_cong[OF vals, of length] by simp
  from a2 have w: "1 \<le> nat workers" by simp
  have inv0: "scan_inv ipnet (nat workers) ?check s0"
    by (rule run_inv[OF scan_init_inv r0])
  have "steps_left E (scan_init ipnet (nat workers)) = 4 * 2 ^ (32 - p) + nat workers + 3"
    by (simp add: steps_left_def scan_init_def lenE sum_list_replicate)
  with run_bounded[OF E scan_init_inv r0]
  show "length sched0 \<le> 4 * 2 ^ (32 - p) + nat workers + 3"
    by simp
  obtain sched1 s where r1: "run ipnet (nat workers) ?check sched1 s0 = Some s"
    and ret: "main_at s = Returned"
    using can_complete[OF E w w inv0 refl] by blast
  from r0 r1 have r: "run ipnet (nat workers) ?check (sched0 @ sched1)
                        (scan_init ipnet (nat workers)) = Some s"
    by (simp add: run_append)
  from a2 have "0 \<le> workers" by simp
  from main_run_returns[OF a1 this r ret]
  show "\<exists>sched1 r. main_run world cidr community workers (sched0 @ sched1) = Some r
                    \<and> exit_status r = 0"
    by (intro exI[of _ sched1]) simp
qed

text \<open>
  When \<open>net.ParseCIDR\<close> rejects the text, the process ends with status 1 under every
  schedule, having printed the banner only and probed nothing. When it accepts the text
  (and the worker count is not negative), every run of the process that ends ends with
  status 0, whatever the hosts answer; once \<open>scanNetwork\<close> has returned, \<open>main\<close> always
  ends, and its output is the banner, the discovery lines and one report per printer in
  turn; for a block with a prefix of 1 to 32 bits and at least one worker no execution of
  the scan has more than \<open>4 * 2^(32-p) + workers + 3\<close> steps, and every one of them can be
  continued to that end. A device whose connection or batch fetch fails
  contributes exactly its one error line to that output, and a walk that fails turns its
  own section into the no-data note.
\<close>

theorem fatal_and_nonfatal_failures:
  "(ParseCIDR world cidr = Inl err \<longrightarrow>
      main_run world cidr community workers sched
      = Some \<lparr>exit_status = 1, out_text = scan_banner cidr workers, probes = []\<rparr>)
   \<and> (ParseCIDR world cidr = Inr ipnet \<and> 0 \<le> workers \<longrightarrow>
        (\<forall>r. main_run world cidr community workers sched = Some r \<longrightarrow> exit_status r = 0)
        \<and> (\<forall>s. run ipnet (nat workers) (\<lambda>ip. checkSNMP (probe_hosts world ip community) ip)
                  sched (scan_init ipnet (nat workers)) = Some s
                \<and> main_at s = Returned \<longrightarrow>
              main_run world cidr community workers sched
              = Some \<lparr>exit_status = 0,
                      out_text = scan_banner cidr workers @ stdout s
                        @ report_printers (\<lambda>ip. poll_devices world ip community) (printers s),
                      probes = hist_probed s\<rparr>))
   \<and> (ParseCIDR world cidr = Inr ipnet \<and> 1 \<le> workers
        \<and> length addr = 4 \<and> 1 \<le> p \<and> p \<le> 32 \<and> ParseCIDR4 addr p = Some ipnet \<longrightarrow>
        (\<forall>sched0 s0.
            run ipnet (nat workers) (\<lambda>ip. checkSNMP (probe_hosts world ip community) ip)
              sched0 (scan_init ipnet (nat workers)) = Some s0 \<longrightarrow>
            length sched0 \<le> 4 * 2 ^ (32 - p) + nat workers + 3
            \<and> (\<exists>sched1 r. main_run world cidr community workers (sched0 @ sched1) = Some r
                    \<and> exit_status r = 0)))
   \<and> (ps \<noteq> [] \<longrightarrow>
        report_printers devs ps
        = [CHR 0xE2, CHR 0x9C, CHR 0x85] @ '' Found '' @ itoa (int (length ps))
          @ '' SNMP printers:\<newline>''
          @ concat (map (\<lambda>q. pollPrinter q (devs q)) ps))
   \<and> (connect_err dev = Some e \<longrightarrow>
        pollPrinter q dev
        = [CHR 0xE2, CHR 0x9D, CHR 0x8C] @ '' Failed to connect to '' @ q @ '': '' @ e
          @ ''\<newline>'')
   \<and> (connect_err dev = None \<and> get_result dev = Inl e \<longrightarrow>
        pollPrinter q dev
        = [CHR 0xE2, CHR 0x9D, CHR 0x8C] @ '' SNMP Get error for '' @ q @ '': '' @ e
          @ ''\<newline>'')
   \<and> (snd (walk_supplies dev) = Some e \<longrightarrow>
        supplies_section dev = ''  Supplies: (No data available: '' @ e @ '')\<newline>'')
   \<and> (snd (walk_trays dev) = Some e \<longrightarrow>
        trays_section dev = ''  Paper Trays: (No data available: '' @ e @ '')\<newline>'')"
proof (intro conjI impI allI)
  assume "ParseCIDR world cidr = Inl err"
  then show "main_run world cidr community workers sched
      = Some \<lparr>exit_status = 1, out_text = scan_banner cidr workers, probes = []\<rparr>"
    by (simp add: main_run_def scanNetwork_def)
next
  fix r
  assume "ParseCIDR world cidr = Inr ipnet \<and> 0 \<le> workers"
    and "main_run world cidr community workers sched = Some r"
  then show "exit_status r = 0"
    using main_run_status[of world cidr ipnet workers community sched r] by blast
next
  fix s
  assume "ParseCIDR world cidr = Inr ipnet \<and> 0 \<le> workers"
    and "run ipnet (nat workers) (\<lambda>ip. checkSNMP (probe_hosts world ip community) ip)
                  sched (scan_init ipnet (nat workers)) = Some s
                \<and> main_at s = Returned"
  then show "main_run world cidr community workers sched
              = Some \<lparr>exit_status = 0,
                      out_text = scan_banner cidr workers @ stdout s
                        @ report_printers (\<lambda>ip. poll_devices world ip community) (printers s),
                      probes = hist_probed s\<rparr>"
    using main_run_returns[of world cidr ipnet workers community sched s] by blast
next
  fix sched0 s0
  assume "ParseCIDR world cidr = Inr ipnet \<and> 1 \<le> workers
        \<and> length addr = 4 \<and> 1 \<le> p \<and> p \<le> 32 \<and> ParseCIDR4 addr p = Some ipnet"
    and "run ipnet (nat workers) (\<lambda>ip. checkSNMP (probe_hosts world ip community) ip)
              sched0 (scan_init ipnet (nat workers)) = Some s0"
  then show "length sched0 \<le> 4 * 2 ^ (32 - p) + nat workers + 3"
    using main_run_completes(1)[of world cidr ipnet workers addr p community sched0 s0]
    by blast
next
  fix sched0 s0
  assume "ParseCIDR world cidr = Inr ipnet \<and> 1 \<le> workers
        \<and> length addr = 4 \<and> 1 \<le> p \<and> p \<le> 32 \<and> ParseCIDR4 addr p = Some ipnet"
    and "run ipnet (nat workers) (\<lambda>ip. checkSNMP (probe_hosts world ip community) ip)
              sched0 (scan_init ipnet (nat workers)) = Some s0"
  then show "\<exists>sched1 r. main_run world cidr community workers (sched0 @ sched1) = Some r
                    \<and> exit_status r = 0"
    using main_run_completes(2)[of world cidr ipnet workers addr p community sched0 s0]
    by blast
next
  assume "ps \<noteq> []"
  then show "report_printers devs ps
        = [CHR 0xE2, CHR 0x9C, CHR 0x85] @ '' Found '' @ itoa (int (length ps))
          @ '' SNMP printers:\<newline>''
          @ concat (map (\<lambda>q. pollPrinter q (devs q)) ps)"
    by (rule report_printers_nonempty)
next
  assume "connect_err dev = Some e"
  then show "pollPrinter q dev
        = [CHR 0xE2, CHR 0x9D, CHR 0x8C] @ '' Failed to connect to '' @ q @ '': '' @ e
          @ ''\<newline>''"
    by (rule pollPrinter_connect_failure)
next
  assume "connect_err dev = None \<and> get_result dev = Inl e"
  then show "pollPrinter q dev
        = [CHR 0xE2, CHR 0x9D, CHR 0x8C] @ '' SNMP Get error for '' @ q @ '': '' @ e
          @ ''\<newline>''"
    using pollPrinter_get_failure by blast
next
  assume "snd (walk_supplies dev) = Some e"
  then show "supplies_section dev = ''  Supplies: (No data available: '' @ e @ '')\<newline>''"
    by (simp add: supplies_section_def show_err_def)
next
  assume "snd (walk_trays dev) = Some e"
  then show "trays_section dev = ''  Paper Trays: (No data available: '' @ e @ '')\<newline>''"
    by (simp add: trays_section_def show_err_def)
qed

theorem fatal_and_nonfatal_failures_witness:
  "ParseCIDR example_world ''not-a-cidr'' = Inl ''invalid CIDR address: not-a-cidr''
   \<and> main_run example_world ''not-a-cidr'' ''public'' 10 example_schedule
       = Some \<lparr>exit_status = 1, out_text = scan_banner ''not-a-cidr'' 10, probes = []\<rparr>
   \<and> ParseCIDR example_world ''10.0.0.7/32''
       = Inr \<lparr>IP = [10, 0, 0, 7], Mask = [255, 255, 255, 255]\<rparr>
   \<and> main_run example_world ''10.0.0.7/32'' ''public'' 1 example_schedule
       = Some \<lparr>exit_status = 0,
               out_text = scan_banner ''10.0.0.7/32'' 1
                 @ [CHR 0xF0, CHR 0x9F, CHR 0x8E, CHR 0xAF] @ '' Found printer: 10.0.0.7 ''
                 @ [CHR 0xE2, CHR 0x86, CHR 0x92] @ '' (unnamed)\<newline>''
                 @ [CHR 0xE2, CHR 0x9C, CHR 0x85] @ '' Found 1 SNMP printers:\<newline>''
                 @ [CHR 0xE2, CHR 0x9D, CHR 0x8C]
                 @ '' Failed to connect to 10.0.0.7: i/o timeout\<newline>'',
               probes = [''10.0.0.7'']\<rparr>
   \<and> ParseCIDR4 [10, 0, 0, 7] 32
       = Some \<lparr>IP = [10, 0, 0, 7], Mask = [255, 255, 255, 255]\<rparr>
   \<and> length example_schedule \<le> 4 * 2 ^ (32 - (32 :: nat)) + nat 1 + 3"
proof -
  let ?net = "\<lparr>IP = [10, 0, 0, 7], Mask = [255, 255, 255, 255]\<rparr>"
  let ?s = "\<lparr>main_at = Returned, workers_at = [Done], ipChan = [], closed = True,
           printers = [''10.0.0.7''],
           stdout = [CHR 0xF0, CHR 0x9F, CHR 0x8E, CHR 0xAF] @ '' Found printer: 10.0.0.7 ''
                    @ [CHR 0xE2, CHR 0x86, CHR 0x92] @ '' (unnamed)\<newline>'',
           hist_sent = [[10, 0, 0, 7]], hist_probed = [''10.0.0.7'']\<rparr>"
  have bad: "ParseCIDR example_world ''not-a-cidr'' = Inl ''invalid CIDR address: not-a-cidr''"
    by (simp add: example_world_def)
  have good: "ParseCIDR example_world ''10.0.0.7/32'' = Inr ?net"
    by (simp add: example_world_def)
  have fatal: "main_run example_world ''not-a-cidr'' ''public'' 10 example_schedule
       = Some \<lparr>exit_status = 1, out_text = scan_banner ''not-a-cidr'' 10, probes = []\<rparr>"
    by (rule fatal_and_nonfatal_failures[where world = example_world
          and err = "''invalid CIDR address: not-a-cidr''", THEN conjunct1, THEN mp, OF bad])
  have nn: "(0 :: int) \<le> 1" by simp
  have r: "run ?net (nat 1) (\<lambda>ip. checkSNMP (probe_hosts example_world ip ''public'') ip)
             example_schedule (scan_init ?net (nat 1)) = Some ?s \<and> main_at ?s = Returned"
    using example_run by simp
  have "main_run example_world ''10.0.0.7/32'' ''public'' 1 example_schedule
       = Some \<lparr>exit_status = 0,
               out_text = scan_banner ''10.0.0.7/32'' 1 @ stdout ?s
                 @ report_printers (\<lambda>ip. poll_devices example_world ip ''public'') (printers ?s),
               probes = hist_probed ?s\<rparr>"
    by (rule fatal_and_nonfatal_failures[where world = example_world and ipnet = ?net
          and workers = 1, THEN conjunct2, THEN conjunct1, THEN mp, OF conjI[OF good nn],
          THEN conjunct2, THEN spec, THEN mp, OF r])
  then have ok: "main_run example_world ''10.0.0.7/32'' ''public'' 1 example_schedule
       = Some \<lparr>exit_status = 0,
               out_text = scan_banner ''10.0.0.7/32'' 1
                 @ [CHR 0xF0, CHR 0x9F, CHR 0x8E, CHR 0xAF] @ '' Found printer: 10.0.0.7 ''
                 @ [CHR 0xE2, CHR 0x86, CHR 0x92] @ '' (unnamed)\<newline>''
                 @ [CHR 0xE2, CHR 0x9C, CHR 0x85] @ '' Found 1 SNMP printers:\<newline>''
                 @ [CHR 0xE2, CHR 0x9D, CHR 0x8C]
                 @ '' Failed to connect to 10.0.0.7: i/o timeout\<newline>'',
               probes = [''10.0.0.7'']\<rparr>"
    by (simp add: report_printers_def pollPrinter_def example_world_def example_device_def
        eval_fmt)
  have hyp: "ParseCIDR example_world ''10.0.0.7/32'' = Inr ?net \<and> (1 :: int) \<le> 1
        \<and> length [10 :: byte, 0, 0, 7] = 4 \<and> (1 :: nat) \<le> 32 \<and> (32 :: nat) \<le> 32
        \<and> ParseCIDR4 [10, 0, 0, 7] 32 = Some ?net"
    using good example_parse by simp
  have bound: "length example_schedule \<le> 4 * 2 ^ (32 - (32 :: nat)) + nat 1 + 3"
    by (rule fatal_and_nonfatal_failures[where world = example_world and ipnet = ?net
          and workers = 1 and p = 32, THEN conjunct2, THEN conjunct2, THEN conjunct1, THEN mp,
          OF hyp, THEN spec, THEN spec, THEN mp, OF r[THEN conjunct1], THEN conjunct1])
  from bad fatal good ok example_parse bound show ?thesis by (intro conjI)
qed

text \<open>
  C7. \<open>net.ParseCIDR\<close> accepts the text \<open>0.0.0.0/0\<close>, and on its block the process has no
  end: with one worker or more, whatever the hosts and devices answer, whatever the
  community string and the schedule, \<open>scanNetwork\<close> does not return, so \<open>main\<close> never
  writes its summary and never exits with status 0.
\<close>

theorem slash0_process_never_exits:
  "ParseCIDR4 [0, 0, 0, 0] 0 = Some \<lparr>IP = [0, 0, 0, 0], Mask = [0, 0, 0, 0]\<rparr>
   \<and> main_run (world\<lparr>ParseCIDR := \<lambda>cidr. Inr \<lparr>IP = [0, 0, 0, 0], Mask = [0, 0, 0, 0]\<rparr>\<rparr>)
       ''0.0.0.0/0'' community (int (Suc W)) sched = None"
proof -
  let ?net = "\<lparr>IP = [0, 0, 0, 0], Mask = [0, 0, 0, 0]\<rparr>"
  let ?check = "\<lambda>ip. checkSNMP (probe_hosts world ip community) ip"
  have "run ?net (Suc W) ?check sched (scan_init ?net (Suc W)) = None
        \<or> (\<exists>s. run ?net (Suc W) ?check sched (scan_init ?net (Suc W)) = Some s
                \<and> main_at s \<noteq> Returned)"
  proof (cases "run ?net (Suc W) ?check sched (scan_init ?net (Suc W))")
    case None
    then show ?thesis by simp
  next
    case (Some s)
    from slash0_in_loop[OF Some] have "main_at s \<noteq> Returned" by auto
    with Some show ?thesis by simp
  qed
  then have "scanNetwork (Inr ?net) ?check (int (Suc W)) sched = None"
    by (auto simp: scanNetwork_def simp del: of_nat_Suc)
  then show ?thesis
    by (simp add: main_run_def ParseCIDR4_slash0 del: of_nat_Suc)
qed

end
